theory Spec2Isabelle
  imports Main "HOL-Library.AList" "HOL-Library.FSet"
begin

section \<open>The catalog of imported files (model.py, class Model)\<close>

text \<open>
  Python exceptions are values. \<open>CalledProcessError\<close> is the one class the
  controller tells apart from every other. \<open>OSError\<close> stands for itself and for each
  of its subclasses that the file system calls raise (FileNotFoundError, FileExistsError,
  NotADirectoryError, IsADirectoryError, shutil.SameFileError): the program never tells
  them apart.
\<close>

datatype py_error =
    KeyError
  | ValueError
  | CalledProcessError
  | OSError

subsection \<open>Python's \<open>int(str)\<close> and \<open>str(int)\<close>\<close>

text \<open>
  \<open>int(s)\<close> in base 10 on an ASCII string: surrounding whitespace (tab, line feed,
  vertical tab, form feed, carriage return, space) is stripped, one sign is allowed, then decimal digits, where single underscores may separate digits.
  Anything else raises ValueError (here: \<open>None\<close>). The interpreter's limit on the
  number of digits (4300 by default) is not modelled.
\<close>

definition is_space :: "char \<Rightarrow> bool" where
  "is_space c = (let n = (of_char c :: nat) in (9 \<le> n \<and> n \<le> 13) \<or> n = 32)"

definition is_digit :: "char \<Rightarrow> bool" where
  "is_digit c = (let n = (of_char c :: nat) in 48 \<le> n \<and> n \<le> 57)"

definition digit_val :: "char \<Rightarrow> int" where
  "digit_val c = int (of_char c) - 48"

definition strip :: "string \<Rightarrow> string" where
  "strip s = rev (dropWhile is_space (rev (dropWhile is_space s)))"

fun parse_digits :: "int \<Rightarrow> string \<Rightarrow> int option" where
  "parse_digits acc [] = Some acc"
| "parse_digits acc [c] = (if is_digit c then Some (10 * acc + digit_val c) else None)"
| "parse_digits acc (c # d # cs) =
     (if is_digit c then parse_digits (10 * acc + digit_val c) (d # cs)
      else if c = CHR ''_'' \<and> is_digit d then parse_digits (10 * acc + digit_val d) cs
      else None)"

definition py_int :: "string \<Rightarrow> int option" where
  "py_int s =
     (case strip s of
        [] \<Rightarrow> None
      | c # cs \<Rightarrow>
          (let neg = (c = CHR ''-'');
               body = (if c = CHR ''-'' \<or> c = CHR ''+'' then cs else c # cs)
           in case body of
                [] \<Rightarrow> None
              | d # ds \<Rightarrow>
                  if is_digit d
                  then map_option (\<lambda>n. if neg then - n else n) (parse_digits (digit_val d) ds)
                  else None))"

text \<open>\<open>str(n)\<close> and \<open>f"{n}"\<close> for an integer: decimal digits, a minus sign when negative.\<close>

definition digit_char :: "nat \<Rightarrow> char" where
  "digit_char d = char_of (48 + d)"

fun nat_digits :: "nat \<Rightarrow> string" where
  "nat_digits n = (if n < 10 then [digit_char n] else nat_digits (n div 10) @ [digit_char (n mod 10)])"

declare nat_digits.simps [simp del]

definition py_str :: "int \<Rightarrow> string" where
  "py_str n = (if n < 0 then CHR ''-'' # nat_digits (nat (- n)) else nat_digits (nat n))"

subsection \<open>The state of a Model\<close>

text \<open>
  A FileElement is the tuple (ID, stem, extension). The two dictionaries are association
  lists in insertion order (a Python dict iterates in insertion order, and export walks
  \<open>file_path_dict.items()\<close>): \<open>AList.update\<close> overwrites a present key in place and
  appends an absent one, as \<open>d[k] = v\<close> does.
\<close>

type_synonym FileElement = "int \<times> string \<times> string"

record Model =
  file_path_dict :: "(int \<times> string) list"
  file_element_dict :: "(int \<times> FileElement) list"
  unique_file_names :: "string set"
  counter :: int

definition init_model :: Model where
  "init_model = \<lparr>file_path_dict = [], file_element_dict = [], unique_file_names = {}, counter = 1\<rparr>"

text \<open>
  \<open>add_file\<close> returns the new element or None, the arguments with which the callback
  \<open>ask_confirm_func\<close> was called (in order), and the model after the call.
\<close>

definition add_file ::
  "Model \<Rightarrow> string \<Rightarrow> string \<Rightarrow> string \<Rightarrow> (string \<Rightarrow> bool)
     \<Rightarrow> FileElement option \<times> string list \<times> Model" where
  "add_file m absolute_path file_stem file_suffix ask_confirm_func =
     (if absolute_path \<in> set (map snd (file_path_dict m)) then (None, [], m)
      else
        let file_full_name = file_stem @ file_suffix in
        if file_full_name \<in> unique_file_names m \<and> \<not> ask_confirm_func file_full_name
        then (None, [file_full_name], m)
        else
          let calls = (if file_full_name \<in> unique_file_names m then [file_full_name] else []);
              current_id = counter m;
              file_element = (current_id, file_stem, file_suffix)
          in (Some file_element, calls,
              m\<lparr>file_path_dict := AList.update current_id absolute_path (file_path_dict m),
                file_element_dict := AList.update current_id file_element (file_element_dict m),
                unique_file_names := insert file_full_name (unique_file_names m),
                counter := counter m + 1\<rparr>))"

text \<open>
  \<open>update_file_stem\<close> raises before it mutates anything (\<open>int(file_id)\<close>, then the
  dictionary lookup), so an error carries no state: the model is the one passed in.
\<close>

definition update_file_stem ::
  "Model \<Rightarrow> string \<Rightarrow> string \<Rightarrow> py_error + (FileElement option \<times> Model)" where
  "update_file_stem m file_id new_stem =
     (case py_int file_id of
        None \<Rightarrow> Inl ValueError
      | Some file_id_int \<Rightarrow>
          (case map_of (file_element_dict m) file_id_int of
             None \<Rightarrow> Inl KeyError
           | Some (eid, old_stem, extension) \<Rightarrow>
               let old_full_name = old_stem @ extension;
                   new_full_name = new_stem @ extension
               in if new_full_name \<noteq> old_full_name \<and> new_full_name \<in> unique_file_names m
                  then Inr (None, m)
                  else
                    let names = insert new_full_name (unique_file_names m - {old_full_name});
                        new_element = (eid, new_stem, extension)
                    in Inr (Some new_element,
                            m\<lparr>unique_file_names := names,
                              file_element_dict :=
                                AList.update file_id_int new_element (file_element_dict m)\<rparr>)))"

definition get_file_count :: "Model \<Rightarrow> nat" where
  "get_file_count m = length (file_path_dict m)"

definition reset :: "Model \<Rightarrow> Model" where
  "reset m = m\<lparr>file_path_dict := [], file_element_dict := [], unique_file_names := {}, counter := 1\<rparr>"

subsection \<open>Sequences of catalog operations\<close>

text \<open>
  The three mutating operations of the catalog, as the controller issues them. A rename
  that raises leaves the model as it was. \<open>run_ops\<close> applies a sequence from left to
  right.
\<close>

datatype op =
    Add string string string "string \<Rightarrow> bool"
  | Rename string string
  | Reset

fun apply_op :: "Model \<Rightarrow> op \<Rightarrow> Model" where
  "apply_op m (Add absolute_path file_stem file_suffix ask_confirm_func) =
     snd (snd (add_file m absolute_path file_stem file_suffix ask_confirm_func))"
| "apply_op m (Rename file_id new_stem) =
     (case update_file_stem m file_id new_stem of Inl e \<Rightarrow> m | Inr (r, m') \<Rightarrow> m')"
| "apply_op m Reset = reset m"

definition run_ops :: "Model \<Rightarrow> op list \<Rightarrow> Model" where
  "run_ops m ops = foldl apply_op m ops"

text \<open>Two callbacks for concrete runs: the user always answers yes, or always no.\<close>

definition always_yes :: "string \<Rightarrow> bool" where
  "always_yes file_full_name = True"

definition always_no :: "string \<Rightarrow> bool" where
  "always_no file_full_name = False"

text \<open>The full display name of an element: stem followed by extension.\<close>

definition full_name :: "FileElement \<Rightarrow> string" where
  "full_name e = fst (snd e) @ snd (snd e)"

definition live_names :: "Model \<Rightarrow> string list" where
  "live_names m = map (\<lambda>kv. full_name (snd kv)) (file_element_dict m)"

text \<open>
  Mutual consistency of the three structures, as the specification words it: every
  entry's full display name is in the name set, every entry's source path is recorded,
  and the three cardinalities agree.
\<close>

definition names_cover_entries :: "Model \<Rightarrow> bool" where
  "names_cover_entries m = (\<forall>n \<in> set (live_names m). n \<in> unique_file_names m)"

definition paths_recorded :: "Model \<Rightarrow> bool" where
  "paths_recorded m =
     (\<forall>k \<in> set (map fst (file_element_dict m)). map_of (file_path_dict m) k \<noteq> None)"

definition consistent :: "Model \<Rightarrow> bool" where
  "consistent m =
     (names_cover_entries m \<and> paths_recorded m
      \<and> length (file_element_dict m) = length (file_path_dict m)
      \<and> card (unique_file_names m) = length (file_path_dict m))"

text \<open>
  An add is an admitted conflict when the callback was consulted and the element was
  created all the same. \<open>admitted_conflicts\<close> counts them along a run.
\<close>

definition is_admitted_conflict :: "Model \<Rightarrow> op \<Rightarrow> bool" where
  "is_admitted_conflict m x =
     (case x of
        Add absolute_path file_stem file_suffix ask_confirm_func \<Rightarrow>
          (case add_file m absolute_path file_stem file_suffix ask_confirm_func of
             (r, calls, m') \<Rightarrow> r \<noteq> None \<and> calls \<noteq> [])
      | Rename file_id new_stem \<Rightarrow> False
      | Reset \<Rightarrow> False)"

fun admitted_conflicts :: "Model \<Rightarrow> op list \<Rightarrow> nat" where
  "admitted_conflicts m [] = 0"
| "admitted_conflicts m (x # xs) =
     (if is_admitted_conflict m x then 1 else 0) + admitted_conflicts (apply_op m x) xs"

text \<open>
  The invariant that every run keeps. The two dictionaries have the same keys in the same
  order, the keys are distinct and below the counter, and every name of the set belongs
  to a live entry. \<open>names_exact\<close> is the stronger state in which the set mirrors the
  live names one to one.
\<close>

definition catalog_inv :: "Model \<Rightarrow> bool" where
  "catalog_inv m =
     (map fst (file_path_dict m) = map fst (file_element_dict m)
      \<and> distinct (map fst (file_element_dict m))
      \<and> (\<forall>k \<in> set (map fst (file_element_dict m)). k < counter m)
      \<and> unique_file_names m \<subseteq> set (live_names m))"

definition names_exact :: "Model \<Rightarrow> bool" where
  "names_exact m = (set (live_names m) \<subseteq> unique_file_names m \<and> distinct (live_names m))"

text \<open>
  Three concrete runs. \<open>twin_ops\<close> imports two files of the same name and admits the
  second; \<open>stale_ops\<close> then renames the first twin. \<open>tidy_ops\<close> never admits a
  conflict.
\<close>

definition twin_ops :: "op list" where
  "twin_ops =
     [Add ''/a/report.docx'' ''report'' ''.docx'' always_yes,
      Add ''/b/report.docx'' ''report'' ''.docx'' always_yes]"

definition stale_ops :: "op list" where
  "stale_ops = twin_ops @ [Rename ''1'' ''x'']"

definition stale_state :: Model where
  "stale_state = run_ops init_model stale_ops"

definition tidy_ops :: "op list" where
  "tidy_ops =
     [Add ''/a/report.docx'' ''report'' ''.docx'' always_no,
      Add ''/b/notes.docx'' ''notes'' ''.docx'' always_no,
      Add ''/c/report.docx'' ''report'' ''.docx'' always_no,
      Rename ''2'' ''minutes'',
      Rename ''1'' ''minutes'']"

section \<open>Paths and the file system (pathlib, os, shutil)\<close>

subsection \<open>Pure POSIX paths\<close>

text \<open>
  A \<open>pathlib.PurePosixPath\<close>: the root (empty for a relative path, one slash, or two
  slashes when the string starts with exactly two) and the components. Parsing drops empty
  components and single dots and keeps \<open>..\<close>, as pathlib does.
\<close>

datatype path = Path (p_root: string) (p_parts: "string list")

fun split_sep :: "string \<Rightarrow> string list" where
  "split_sep [] = [[]]"
| "split_sep (c # cs) =
     (if c = CHR ''/'' then [] # split_sep cs
      else (case split_sep cs of [] \<Rightarrow> [[c]] | w # ws \<Rightarrow> (c # w) # ws))"

fun join_sep :: "string list \<Rightarrow> string" where
  "join_sep [] = []"
| "join_sep [x] = x"
| "join_sep (x # y # ys) = x @ CHR ''/'' # join_sep (y # ys)"

definition parse_path :: "string \<Rightarrow> path" where
  "parse_path s =
     (let lead = length (takeWhile (\<lambda>c. c = CHR ''/'') s);
          r = (if lead = 0 then [] else if lead = 2 then ''//'' else ''/'')
      in Path r (filter (\<lambda>x. x \<noteq> [] \<and> x \<noteq> ''.'') (split_sep s)))"

definition str_path :: "path \<Rightarrow> string" where
  "str_path p = (if p_root p = [] \<and> p_parts p = [] then ''.'' else p_root p @ join_sep (p_parts p))"

text \<open>\<open>p / s\<close>: an absolute right operand replaces the left one.\<close>

definition joinpath :: "path \<Rightarrow> string \<Rightarrow> path" where
  "joinpath p s =
     (let q = parse_path s
      in if p_root q \<noteq> [] then q else Path (p_root p) (p_parts p @ p_parts q))"

definition path_name :: "path \<Rightarrow> string" where
  "path_name p = (case rev (p_parts p) of [] \<Rightarrow> [] | x # xs \<Rightarrow> x)"

definition path_parent :: "path \<Rightarrow> path" where
  "path_parent p = Path (p_root p) (butlast (p_parts p))"

text \<open>
  The suffix is the part of the name from its last dot on, unless that dot is the first
  or the last character of the name; the stem is the name without the suffix.
  \<open>with_suffix\<close> replaces the suffix when there is one and appends otherwise.
\<close>

definition path_suffix :: "path \<Rightarrow> string" where
  "path_suffix p =
     (let name = path_name p;
          tail = takeWhile (\<lambda>c. c \<noteq> CHR ''.'') (rev name)
      in if CHR ''.'' \<in> set name \<and> tail \<noteq> [] \<and> length tail + 1 < length name
         then CHR ''.'' # rev tail else [])"

definition path_stem :: "path \<Rightarrow> string" where
  "path_stem p = take (length (path_name p) - length (path_suffix p)) (path_name p)"

definition with_suffix :: "path \<Rightarrow> string \<Rightarrow> py_error + path" where
  "with_suffix p suffix =
     (if CHR ''/'' \<in> set suffix \<or> (suffix \<noteq> [] \<and> take 1 suffix \<noteq> ''.'') \<or> suffix = ''.''
      then Inl ValueError
      else if path_name p = [] then Inl ValueError
      else Inr (Path (p_root p) (butlast (p_parts p) @ [path_stem p @ suffix])))"

subsection \<open>A file system\<close>

text \<open>
  The tree is an association list from paths to nodes, in creation order. A file holds
  bytes; a zip archive holds the finite set of its members (the order in which an archive
  lists its members is the order of the directory scan and is not modelled). All paths are read against one fixed current
  directory; symbolic links and the resolution of \<open>..\<close> are outside the model. The root
  and the current directory (the paths without components) always exist.
\<close>

datatype node = Dir | File string | Zip "(string \<times> node) fset"

type_synonym fs = "(path \<times> node) list"

definition path_exists :: "fs \<Rightarrow> path \<Rightarrow> bool" where
  "path_exists t p = (p_parts p = [] \<or> map_of t p \<noteq> None)"

definition is_dir :: "fs \<Rightarrow> path \<Rightarrow> bool" where
  "is_dir t p = (p_parts p = [] \<or> map_of t p = Some Dir)"

definition under :: "path \<Rightarrow> path \<Rightarrow> bool" where
  "under d p = (p_root p = p_root d \<and> take (length (p_parts d)) (p_parts p) = p_parts d)"

text \<open>\<open>Path.mkdir(parents=True, exist_ok=True)\<close>, by pathlib's own recursion.\<close>

function mkdir_parents :: "fs \<Rightarrow> path \<Rightarrow> py_error + fs" where
  "mkdir_parents t p =
     (if path_exists t p then (if is_dir t p then Inr t else Inl OSError)
      else if is_dir t (path_parent p) then Inr (t @ [(p, Dir)])
      else if path_exists t (path_parent p) then Inl OSError
      else (case mkdir_parents t (path_parent p) of
              Inl e \<Rightarrow> Inl e
            | Inr t' \<Rightarrow> Inr (t' @ [(p, Dir)])))"
  by pat_completeness auto
termination
  by (relation "measure (\<lambda>(t, p). length (p_parts p))")
     (auto simp: path_parent_def path_exists_def intro: diff_less)

declare mkdir_parents.simps [simp del]

text \<open>Opening a path for writing and storing a node there.\<close>

definition write_file :: "fs \<Rightarrow> path \<Rightarrow> node \<Rightarrow> py_error + fs" where
  "write_file t p n =
     (if is_dir t p then Inl OSError
      else if is_dir t (path_parent p) then Inr (AList.update p n t)
      else Inl OSError)"

text \<open>\<open>shutil.copy(src, dst)\<close>: into \<open>dst\<close> when it is a directory, onto it otherwise.\<close>

definition shutil_copy :: "fs \<Rightarrow> path \<Rightarrow> path \<Rightarrow> py_error + fs" where
  "shutil_copy t src dst =
     (let target = (if is_dir t dst then joinpath dst (path_name src) else dst)
      in if path_exists t src \<and> src = target then Inl OSError
         else if is_dir t src then Inl OSError
         else (case map_of t src of
                 None \<Rightarrow> Inl OSError
               | Some n \<Rightarrow> write_file t target n))"

definition os_remove :: "fs \<Rightarrow> path \<Rightarrow> py_error + fs" where
  "os_remove t p =
     (if is_dir t p then Inl OSError
      else if map_of t p = None then Inl OSError
      else Inr (AList.delete p t))"

text \<open>
  \<open>Path.rename(target)\<close> (POSIX): a file replaces an existing file; a directory moves
  with everything under it and replaces only an empty directory.
\<close>

definition rebase :: "path \<Rightarrow> path \<Rightarrow> path \<Rightarrow> path" where
  "rebase src dst p = Path (p_root dst) (p_parts dst @ drop (length (p_parts src)) (p_parts p))"

definition os_rename :: "fs \<Rightarrow> path \<Rightarrow> path \<Rightarrow> py_error + fs" where
  "os_rename t src dst =
     (if p_parts src = [] \<or> map_of t src = None then Inl OSError
      else if src = dst then Inr t
      else if \<not> is_dir t (path_parent dst) then Inl OSError
      else if map_of t src = Some Dir then
        (if under src dst then Inl OSError
         else if path_exists t dst \<and> \<not> is_dir t dst then Inl OSError
         else if p_parts dst = [] \<or> (\<exists>q \<in> set (map fst t). under dst q \<and> q \<noteq> dst) then Inl OSError
         else Inr (filter (\<lambda>kv. \<not> under src (fst kv) \<and> fst kv \<noteq> dst) t
                   @ map (\<lambda>kv. (rebase src dst (fst kv), snd kv)) (filter (\<lambda>kv. under src (fst kv)) t)))
      else if is_dir t dst then Inl OSError
      else (case map_of t src of
              None \<Rightarrow> Inl OSError
            | Some n \<Rightarrow> Inr (AList.update dst n (AList.delete src t))))"

definition rmtree :: "fs \<Rightarrow> path \<Rightarrow> py_error + fs" where
  "rmtree t d =
     (if \<not> path_exists t d then Inl OSError
      else if \<not> is_dir t d then Inl OSError
      else Inr (filter (\<lambda>kv. \<not> under d (fst kv)) t))"

text \<open>
  \<open>shutil.make_archive(base_name, 'zip', root_dir=root_dir)\<close>: the archive is the file
  \<open>base_name + ".zip"\<close>; its directory is created when missing. The archive is opened
  for writing, which creates it empty, and then the walk collects everything under
  \<open>root_dir\<close>, named relative to it, directories with a trailing slash. An archive that
  lies under \<open>root_dir\<close> is therefore a member of itself, in the state in which the walk
  meets it; the model takes the empty archive just opened.
\<close>

definition archive_entries :: "fs \<Rightarrow> path \<Rightarrow> (string \<times> node) fset" where
  "archive_entries t d =
     fset_of_list
       (map (\<lambda>kv. (join_sep (drop (length (p_parts d)) (p_parts (fst kv)))
                    @ (if snd kv = Dir then ''/'' else []), snd kv))
            (filter (\<lambda>kv. under d (fst kv) \<and> fst kv \<noteq> d) t))"

definition make_archive :: "fs \<Rightarrow> string \<Rightarrow> string \<Rightarrow> py_error + fs" where
  "make_archive t base_name root_dir =
     (let zip_filename = parse_path (base_name @ ''.zip'');
          archive_dir = path_parent zip_filename
      in if \<not> is_dir t (parse_path root_dir) then Inl OSError
         else (case (if path_exists t archive_dir then Inr t else mkdir_parents t archive_dir) of
                 Inl e \<Rightarrow> Inl e
               | Inr t' \<Rightarrow>
                   (case write_file t' zip_filename (Zip {||}) of
                      Inl e \<Rightarrow> Inl e
                    | Inr opened \<Rightarrow>
                        Inr (AList.update zip_filename
                               (Zip (archive_entries opened (parse_path root_dir))) opened))))"

section \<open>The export pipeline (Model.export, Model.create_zip_archive)\<close>

subsection \<open>The final name of a converted file\<close>

text \<open>
  The loop of \<open>Model.export\<close> that picks the final PDF path: while the path exists, the
  next candidate is \<open>final_name_base_counter.pdf\<close> in the working directory and the
  counter goes up by one. \<open>numbered_pdf\<close> is the candidate for a counter.
\<close>

definition numbered_pdf :: "path \<Rightarrow> string \<Rightarrow> int \<Rightarrow> path" where
  "numbered_pdf temp_outdir final_name_base n =
     joinpath temp_outdir (final_name_base @ ''_'' @ py_str n @ ''.pdf'')"

text \<open>
  The loop ends because different counters give different candidates, and the tree
  holds finitely many paths. \<open>str_val\<close> reads back what \<open>py_str\<close> prints;
  \<open>taken_from\<close> counts the candidates from a counter on that exist.
\<close>

definition digits_val :: "string \<Rightarrow> nat" where
  "digits_val s = foldl (\<lambda>a c. 10 * a + (of_char c - 48)) 0 s"

definition str_val :: "string \<Rightarrow> int" where
  "str_val s = (case s of [] \<Rightarrow> 0 | c # cs \<Rightarrow> if c = CHR ''-'' then - int (digits_val cs) else int (digits_val s))"

definition taken_from :: "fs \<Rightarrow> path \<Rightarrow> string \<Rightarrow> int \<Rightarrow> nat" where
  "taken_from t d b n = card {k. n \<le> k \<and> path_exists t (numbered_pdf d b k)}"

lemma of_char_digit_char: "d < 10 \<Longrightarrow> (of_char (digit_char d) :: nat) = 48 + d"
  by (simp add: digit_char_def)

lemma digit_char_plain: "d < 10 \<Longrightarrow> digit_char d \<noteq> CHR ''-'' \<and> digit_char d \<noteq> CHR ''/''"
proof -
  assume d: "d < 10"
  have "(of_char (digit_char d) :: nat) \<noteq> of_char (CHR ''-'')" "(of_char (digit_char d) :: nat) \<noteq> of_char (CHR ''/'')"
    using d by (simp_all add: of_char_digit_char)
  then show ?thesis by auto
qed

lemma digits_val_snoc: "digits_val (s @ [c]) = 10 * digits_val s + (of_char c - 48)"
  by (simp add: digits_val_def)

lemma digits_val_nat_digits: "digits_val (nat_digits n) = n"
proof (induction n rule: nat_digits.induct)
  case (1 n)
  show ?case
  proof (cases "n < 10")
    case True
    then show ?thesis
      by (subst nat_digits.simps) (simp add: digits_val_def of_char_digit_char)
  next
    case False
    with 1 have "digits_val (nat_digits (n div 10)) = n div 10" by simp
    with False show ?thesis
      by (subst nat_digits.simps) (simp add: digits_val_snoc of_char_digit_char)
  qed
qed

lemma nat_digits_plain:
  "nat_digits n \<noteq> [] \<and> CHR ''-'' \<notin> set (nat_digits n) \<and> CHR ''/'' \<notin> set (nat_digits n)"
proof (induction n rule: nat_digits.induct)
  case (1 n)
  show ?case
  proof (cases "n < 10")
    case True
    then show ?thesis
      using digit_char_plain [of n] by (subst (1 2 3) nat_digits.simps) auto
  next
    case False
    with 1 have ih: "CHR ''-'' \<notin> set (nat_digits (n div 10)) \<and> CHR ''/'' \<notin> set (nat_digits (n div 10))"
      by simp
    have "n mod 10 < 10" by simp
    from digit_char_plain [OF this] ih False show ?thesis
      by (subst (1 2 3) nat_digits.simps) auto
  qed
qed

lemma str_val_py_str: "str_val (py_str n) = n"
proof (cases "n < 0")
  case True
  then show ?thesis by (simp add: str_val_def py_str_def digits_val_nat_digits)
next
  case False
  obtain c cs where cs: "nat_digits (nat n) = c # cs"
    using nat_digits_plain [of "nat n"] by (cases "nat_digits (nat n)") auto
  with nat_digits_plain [of "nat n"] have "c \<noteq> CHR ''-''" by auto
  with False cs digits_val_nat_digits [of "nat n"] show ?thesis
    by (simp add: str_val_def py_str_def)
qed

lemma py_str_inj: "py_str a = py_str b \<Longrightarrow> a = b"
  by (metis str_val_py_str)

lemma py_str_no_sep: "CHR ''/'' \<notin> set (py_str n)"
  using nat_digits_plain by (simp add: py_str_def)

lemma split_sep_nonempty: "split_sep s \<noteq> []"
  by (induction s) (auto split: list.splits)

lemma split_sep_append:
  "CHR ''/'' \<notin> set t \<Longrightarrow> split_sep (s @ t) = butlast (split_sep s) @ [last (split_sep s) @ t]"
proof (induction s)
  case Nil
  then show ?case
    by (induction t) (auto split: list.splits)
next
  case (Cons c s)
  then show ?case
    using split_sep_nonempty [of s] split_sep_nonempty [of "s @ t"]
    by (auto split: list.splits simp: butlast_append)
qed


lemma takeWhile_sep_append:
  "c \<noteq> CHR ''/'' \<Longrightarrow> takeWhile (\<lambda>x. x = CHR ''/'') (b @ c # t) = takeWhile (\<lambda>x. x = CHR ''/'') b"
  by (induction b) auto

lemma parse_path_tail:
  assumes "CHR ''/'' \<notin> set t" "t \<noteq> []" "hd t \<noteq> CHR ''.''"
  shows "p_parts (parse_path (b @ t)) =
           filter (\<lambda>x. x \<noteq> [] \<and> x \<noteq> ''.'') (butlast (split_sep b)) @ [last (split_sep b) @ t]"
    and "p_root (parse_path (b @ t)) = p_root (parse_path (b @ ''_''))"
proof -
  obtain c u where t: "t = c # u" using assms(2) by (cases t) auto
  with assms have c: "c \<noteq> CHR ''/''" "c \<noteq> CHR ''.''" by auto
  have ne: "last (split_sep b) @ t \<noteq> []" "last (split_sep b) @ t \<noteq> ''.''"
    using t c by (auto simp: append_eq_Cons_conv)
  show "p_parts (parse_path (b @ t)) =
           filter (\<lambda>x. x \<noteq> [] \<and> x \<noteq> ''.'') (butlast (split_sep b)) @ [last (split_sep b) @ t]"
    using ne by (simp add: parse_path_def split_sep_append [OF assms(1)])
  show "p_root (parse_path (b @ t)) = p_root (parse_path (b @ ''_''))"
    using c(1) by (simp add: parse_path_def t takeWhile_sep_append)
qed

lemma numbered_tail:
  "CHR ''/'' \<notin> set (''_'' @ py_str n @ ''.pdf'') \<and> ''_'' @ py_str n @ ''.pdf'' \<noteq> []
   \<and> hd (''_'' @ py_str n @ ''.pdf'') \<noteq> CHR ''.''"
  using py_str_no_sep [of n] by simp

lemma numbered_pdf_parts:
  "\<exists>pre. p_parts (numbered_pdf d b n) = pre @ [last (split_sep b) @ ''_'' @ py_str n @ ''.pdf'']
     \<and> (\<forall>j. p_parts (numbered_pdf d b j) = pre @ [last (split_sep b) @ ''_'' @ py_str j @ ''.pdf''])"
proof -
  let ?t = "\<lambda>n. ''_'' @ py_str n @ ''.pdf''"
  let ?mid = "filter (\<lambda>x. x \<noteq> [] \<and> x \<noteq> ''.'') (butlast (split_sep b))"
  have parts: "p_parts (parse_path (b @ ?t j)) = ?mid @ [last (split_sep b) @ ?t j]" for j
    using parse_path_tail(1) [of "?t j" b] numbered_tail [of j] by blast
  have root: "p_root (parse_path (b @ ?t j)) = p_root (parse_path (b @ ''_''))" for j
    using parse_path_tail(2) [of "?t j" b] numbered_tail [of j] by blast
  show ?thesis
  proof (cases "p_root (parse_path (b @ ''_'')) = []")
    case True
    have "p_parts (numbered_pdf d b j) = (p_parts d @ ?mid) @ [last (split_sep b) @ ?t j]" for j
      using True root [of j] parts [of j] by (simp add: numbered_pdf_def joinpath_def Let_def)
    then show ?thesis by (intro exI [of _ "p_parts d @ ?mid"]) simp
  next
    case False
    have "p_parts (numbered_pdf d b j) = ?mid @ [last (split_sep b) @ ?t j]" for j
      using False root [of j] parts [of j] by (simp add: numbered_pdf_def joinpath_def Let_def)
    then show ?thesis by (intro exI [of _ "?mid"]) simp
  qed
qed

lemma numbered_pdf_inj: "numbered_pdf d b j = numbered_pdf d b k \<Longrightarrow> j = k"
proof -
  assume eq: "numbered_pdf d b j = numbered_pdf d b k"
  from numbered_pdf_parts [of d b j] obtain pre where
    "\<forall>i. p_parts (numbered_pdf d b i) = pre @ [last (split_sep b) @ ''_'' @ py_str i @ ''.pdf'']"
    by blast
  then have "pre @ [last (split_sep b) @ ''_'' @ py_str j @ ''.pdf'']
      = pre @ [last (split_sep b) @ ''_'' @ py_str k @ ''.pdf'']"
    using eq by metis
  then have "py_str j = py_str k" by simp
  then show ?thesis by (rule py_str_inj)
qed

lemma numbered_pdf_parts_nonempty: "p_parts (numbered_pdf d b n) \<noteq> []"
  using numbered_pdf_parts [of d b n] by auto

lemma finite_numbered: "finite {k. path_exists t (numbered_pdf d b k)}"
proof -
  have "{k. path_exists t (numbered_pdf d b k)} = (\<lambda>k. numbered_pdf d b k) -` (fst ` set t)"
    by (auto simp: path_exists_def numbered_pdf_parts_nonempty map_of_eq_None_iff)
  moreover have "finite ((\<lambda>k. numbered_pdf d b k) -` (fst ` set t))"
    by (rule finite_vimageI) (auto simp: inj_on_def dest: numbered_pdf_inj)
  ultimately show ?thesis by simp
qed

lemma taken_from_step:
  "taken_from t d b n = (if path_exists t (numbered_pdf d b n) then 1 else 0) + taken_from t d b (n + 1)"
proof -
  let ?S = "\<lambda>n. {k. n \<le> k \<and> path_exists t (numbered_pdf d b k)}"
  have fin: "finite (?S m)" for m
    by (rule finite_subset [OF _ finite_numbered [of t d b]]) auto
  show ?thesis
  proof (cases "path_exists t (numbered_pdf d b n)")
    case True
    then have "?S n = insert n (?S (n + 1))" by auto
    moreover have "n \<notin> ?S (n + 1)" by simp
    ultimately show ?thesis using True fin [of "n + 1"] by (simp add: taken_from_def)
  next
    case False
    then have "?S n = ?S (n + 1)"
      by (auto simp: order_le_less)
    with False show ?thesis by (simp add: taken_from_def)
  qed
qed

function find_free :: "fs \<Rightarrow> path \<Rightarrow> string \<Rightarrow> path \<Rightarrow> int \<Rightarrow> path" where
  "find_free t temp_outdir final_name_base pdf_new_path n =
     (if path_exists t pdf_new_path
      then find_free t temp_outdir final_name_base (numbered_pdf temp_outdir final_name_base n) (n + 1)
      else pdf_new_path)"
  by pat_completeness auto
termination
proof (relation "measure (\<lambda>(t, d, b, p, n). 2 * taken_from t d b n + (if path_exists t p then 1 else 0))")
  show "wf (measure (\<lambda>(t, d, b, p, n). 2 * taken_from t d b n + (if path_exists t p then 1 else 0)))"
    by simp
next
  fix t d b p n
  assume "path_exists t p"
  then show "((t, d, b, numbered_pdf d b n, n + 1), (t, d, b, p, n))
      \<in> measure (\<lambda>(t, d, b, p, n). 2 * taken_from t d b n + (if path_exists t p then 1 else 0))"
    using taken_from_step [of t d b n] by simp
qed

declare find_free.simps [simp del]

definition resolve_final_path :: "fs \<Rightarrow> path \<Rightarrow> string \<Rightarrow> path" where
  "resolve_final_path t temp_outdir new_pdf_name_stem =
     find_free t temp_outdir new_pdf_name_stem (joinpath temp_outdir (new_pdf_name_stem @ ''.pdf'')) 1"

subsection \<open>The external converter\<close>

text \<open>
  Modelled from the spec: the external converter (soffice) is a separate program, not
  part of the repository. By the interface the specification gives, it signals failure
  by a non-zero exit status and on success writes \<open>inputStem.pdf\<close> into the output
  directory. The converter is a parameter: from the path of the staged input and what is
  stored there it decides the outcome. \<open>Exit0 None\<close> is an exit status of zero without
  an output file (the source guards the rename for it); \<open>SpawnFailed\<close> is
  \<open>subprocess.run\<close> not finding the executable. A converter that cannot write its
  output exits non-zero.
\<close>

datatype proc_result = Exit0 "string option" | ExitNonZero | SpawnFailed

type_synonym converter = "string \<Rightarrow> node option \<Rightarrow> proc_result"

definition run_soffice :: "converter \<Rightarrow> fs \<Rightarrow> path \<Rightarrow> path \<Rightarrow> py_error option \<times> fs" where
  "run_soffice soffice t outdir input =
     (case soffice (str_path input) (map_of t input) of
        SpawnFailed \<Rightarrow> (Some OSError, t)
      | ExitNonZero \<Rightarrow> (Some CalledProcessError, t)
      | Exit0 None \<Rightarrow> (None, t)
      | Exit0 (Some pdf) \<Rightarrow>
          (case write_file t (joinpath outdir (path_stem input @ ''.pdf'')) (File pdf) of
             Inl e \<Rightarrow> (Some CalledProcessError, t)
           | Inr t' \<Rightarrow> (None, t')))"

subsection \<open>Model.export\<close>

text \<open>
  Every stage returns the exception in flight (None when there is none) and the tree as
  it stands. \<open>convert_and_rename\<close> is the body of the \<open>try\<close>, \<open>remove_staged\<close> the
  \<open>finally\<close>: it runs on every outcome, and an exception of its own replaces the one in
  flight. The copy happens before the \<open>try\<close>, so its failure skips both.
\<close>

definition convert_and_rename ::
  "converter \<Rightarrow> fs \<Rightarrow> path \<Rightarrow> path \<Rightarrow> path \<Rightarrow> string \<Rightarrow> py_error option \<times> fs" where
  "convert_and_rename soffice t temp_outdir temp_unique_original_path pdf_original_path new_pdf_name_stem =
     (case run_soffice soffice t temp_outdir temp_unique_original_path of
        (Some e, t1) \<Rightarrow> (Some e, t1)
      | (None, t1) \<Rightarrow>
          let pdf_new_path = resolve_final_path t1 temp_outdir new_pdf_name_stem
          in if path_exists t1 pdf_original_path
             then (case os_rename t1 pdf_original_path pdf_new_path of
                     Inl e \<Rightarrow> (Some e, t1)
                   | Inr t2 \<Rightarrow> (None, t2))
             else (None, t1))"

definition remove_staged :: "py_error option \<times> fs \<Rightarrow> path \<Rightarrow> py_error option \<times> fs" where
  "remove_staged r temp_unique_original_path =
     (case r of
        (e, t) \<Rightarrow>
          if path_exists t temp_unique_original_path
          then (case os_remove t temp_unique_original_path of
                  Inl e' \<Rightarrow> (Some e', t)
                | Inr t' \<Rightarrow> (e, t'))
          else (e, t))"

definition export_entry ::
  "converter \<Rightarrow> Model \<Rightarrow> path \<Rightarrow> fs \<Rightarrow> int \<times> string \<Rightarrow> py_error option \<times> fs" where
  "export_entry soffice m temp_outdir t item =
     (case item of
        (file_id, original_path) \<Rightarrow>
          (case map_of (file_element_dict m) file_id of
             None \<Rightarrow> (Some KeyError, t)
           | Some file_elements \<Rightarrow>
               let new_pdf_name_stem = fst (snd file_elements);
                   original_file_path = parse_path original_path;
                   temp_unique_original_name = py_str file_id @ ''_'' @ path_name original_file_path;
                   temp_unique_original_path = joinpath temp_outdir temp_unique_original_name
               in (case shutil_copy t original_file_path temp_unique_original_path of
                     Inl e \<Rightarrow> (Some e, t)
                   | Inr t1 \<Rightarrow>
                       let generated_pdf_name = path_stem temp_unique_original_path @ ''.pdf'';
                           pdf_original_path = joinpath temp_outdir generated_pdf_name
                       in remove_staged
                            (convert_and_rename soffice t1 temp_outdir temp_unique_original_path
                               pdf_original_path new_pdf_name_stem)
                            temp_unique_original_path)))"

fun export_items ::
  "converter \<Rightarrow> Model \<Rightarrow> path \<Rightarrow> fs \<Rightarrow> (int \<times> string) list \<Rightarrow> py_error option \<times> fs" where
  "export_items soffice m temp_outdir t [] = (None, t)"
| "export_items soffice m temp_outdir t (item # items) =
     (case export_entry soffice m temp_outdir t item of
        (Some e, t1) \<Rightarrow> (Some e, t1)
      | (None, t1) \<Rightarrow> export_items soffice m temp_outdir t1 items)"

definition export :: "converter \<Rightarrow> Model \<Rightarrow> path \<Rightarrow> fs \<Rightarrow> py_error option \<times> fs" where
  "export soffice m temp_outdir t =
     (case mkdir_parents t temp_outdir of
        Inl e \<Rightarrow> (Some e, t)
      | Inr t1 \<Rightarrow> export_items soffice m temp_outdir t1 (file_path_dict m))"

subsection \<open>Model.create_zip_archive\<close>

definition create_zip_archive ::
  "fs \<Rightarrow> path \<Rightarrow> string \<Rightarrow> string \<Rightarrow> (py_error + string) \<times> fs" where
  "create_zip_archive t source_dir dest_dir zip_name =
     (let zip_path = joinpath (parse_path dest_dir) zip_name
      in case make_archive t (str_path zip_path) (str_path source_dir) of
           Inl e \<Rightarrow> (Inl e, t)
         | Inr t' \<Rightarrow>
             (case with_suffix zip_path ''.zip'' of
                Inl e \<Rightarrow> (Inl e, t')
              | Inr p \<Rightarrow> (Inr (str_path p), t')))"

section \<open>The controller (controller.py)\<close>

text \<open>
  What the controller tells the view is kept as a list of events; the texts of the status
  line are named, not spelled. The working directory of the process and the two random
  tokens (\<open>uuid4().hex\<close>) are parameters. The run returns the model, the tree, the
  events, the path \<open>create_zip_archive\<close> returned (None when it was never reached or
  raised), and the exception that leaves the function, if any.
\<close>

datatype status_text = Converting | Zipping | ConversionFailed | FatalFailure | Blank

datatype ui_event =
    UpdateStatus nat status_text
  | ShowInfoExportDone string string
  | ShowErrorFatal py_error
  | ClearTreeview
  | ShowInfoReset
  | SetControlStates bool

record run_result =
  r_model :: Model
  r_fs :: fs
  r_events :: "ui_event list"
  r_zip_file_path :: "string option"
  r_raised :: "py_error option"

definition handle_reset :: "Model \<Rightarrow> Model \<times> ui_event list" where
  "handle_reset m = (reset m, [ClearTreeview, UpdateStatus 0 Blank, ShowInfoReset])"

text \<open>The \<open>try\<close> block of \<open>_run_export_in_thread\<close>, up to the first exception.\<close>

definition export_and_archive ::
  "converter \<Rightarrow> path \<Rightarrow> string \<Rightarrow> string \<Rightarrow> Model \<Rightarrow> fs \<Rightarrow> run_result" where
  "export_and_archive soffice temp_dir token directory m t =
     (let ev1 = [UpdateStatus (get_file_count m) Converting]
      in case export soffice m temp_dir t of
           (Some e, t1) \<Rightarrow>
             \<lparr>r_model = m, r_fs = t1, r_events = ev1, r_zip_file_path = None, r_raised = Some e\<rparr>
         | (None, t1) \<Rightarrow>
             let ev2 = ev1 @ [UpdateStatus (get_file_count m) Zipping];
                 zip_filename = ''Export_PDFs_'' @ path_name (parse_path directory) @ ''_'' @ take 4 token
             in (case create_zip_archive t1 temp_dir directory zip_filename of
                   (Inl e, t2) \<Rightarrow>
                     \<lparr>r_model = m, r_fs = t2, r_events = ev2, r_zip_file_path = None, r_raised = Some e\<rparr>
                 | (Inr zip_file_path, t2) \<Rightarrow>
                     (case handle_reset m of
                        (m', ev3) \<Rightarrow>
                          \<lparr>r_model = m', r_fs = t2,
                            r_events = ev2 @ [ShowInfoExportDone (path_name (parse_path zip_file_path)) directory] @ ev3,
                            r_zip_file_path = Some zip_file_path, r_raised = None\<rparr>)))"

text \<open>The two \<open>except\<close> clauses, then the \<open>finally\<close>.\<close>

definition run_export_in_thread ::
  "converter \<Rightarrow> path \<Rightarrow> string \<Rightarrow> string \<Rightarrow> string \<Rightarrow> Model \<Rightarrow> fs \<Rightarrow> run_result" where
  "run_export_in_thread soffice cwd token1 token2 directory m t =
     (let temp_dir = joinpath cwd (''temp_pdf_export_'' @ token1);
          r = export_and_archive soffice temp_dir token2 directory m t;
          handled =
            (case r_raised r of
               None \<Rightarrow> r
             | Some e \<Rightarrow>
                 if e = CalledProcessError
                 then r\<lparr>r_events := r_events r @ [UpdateStatus (get_file_count (r_model r)) ConversionFailed],
                        r_raised := None\<rparr>
                 else r\<lparr>r_events := r_events r @ [UpdateStatus (get_file_count (r_model r)) FatalFailure,
                                                       ShowErrorFatal e],
                        r_raised := None\<rparr>)
      in if path_exists (r_fs handled) temp_dir
         then (case rmtree (r_fs handled) temp_dir of
                 Inl e \<Rightarrow> handled\<lparr>r_raised := Some e\<rparr>
               | Inr t' \<Rightarrow> handled\<lparr>r_fs := t', r_events := r_events handled @ [SetControlStates True]\<rparr>)
         else handled\<lparr>r_events := r_events handled @ [SetControlStates True]\<rparr>)"

section \<open>A concrete export\<close>

text \<open>
  The scenario of the specification: /a/report.docx and /b/report.docx are imported, the
  second admitted by the user, and exported from the working directory /work into /out.
  \<open>soffice_ok\<close> converts every file; \<open>soffice_fail_b\<close> exits non-zero on the second
  document. \<open>exported_fs\<close> is the tree when \<open>Model.export\<close> has returned.
  \<open>trio_model\<close> holds a third entry, /b/notes.docx. In \<open>clash_model\<close> the first
  entry has been renamed to 2_report before the second file is imported; in
  \<open>escape_model\<close> and \<open>nested_model\<close> the one entry has a separator in its stem.
\<close>

definition sample_fs :: fs where
  "sample_fs =
     [(Path ''/'' [''a''], Dir), (Path ''/'' [''a'', ''report.docx''], File ''doc A''),
      (Path ''/'' [''b''], Dir), (Path ''/'' [''b'', ''report.docx''], File ''doc B''),
      (Path ''/'' [''b'', ''notes.docx''], File ''doc C''),
      (Path ''/'' [''work''], Dir), (Path ''/'' [''out''], Dir),
      (Path ''/'' [''out'', ''v1.2''], Dir)]"

definition soffice_ok :: converter where
  "soffice_ok input n =
     (case n of Some (File d) \<Rightarrow> Exit0 (Some (''PDF of '' @ d)) | _ \<Rightarrow> ExitNonZero)"

definition soffice_fail_b :: converter where
  "soffice_fail_b input n =
     (case n of
        Some (File d) \<Rightarrow> (if d = ''doc B'' then ExitNonZero else Exit0 (Some (''PDF of '' @ d)))
      | _ \<Rightarrow> ExitNonZero)"

definition work_dir :: path where
  "work_dir = Path ''/'' [''work'']"

definition tmp_dir :: path where
  "tmp_dir = Path ''/'' [''work'', ''temp_pdf_export_0123abcd'']"

definition twin_model :: Model where
  "twin_model = run_ops init_model twin_ops"

definition trio_model :: Model where
  "trio_model = run_ops init_model (twin_ops @ [Add ''/b/notes.docx'' ''notes'' ''.docx'' always_yes])"

definition clash_ops :: "op list" where
  "clash_ops =
     [Add ''/a/report.docx'' ''report'' ''.docx'' always_no,
      Rename ''1'' ''2_report'',
      Add ''/b/report.docx'' ''report'' ''.docx'' always_no]"

definition clash_model :: Model where
  "clash_model = run_ops init_model clash_ops"

definition escape_model :: Model where
  "escape_model =
     run_ops init_model
       [Add ''/a/report.docx'' ''report'' ''.docx'' always_no, Rename ''1'' ''/out/evil'']"

definition nested_model :: Model where
  "nested_model =
     run_ops init_model
       [Add ''/a/report.docx'' ''report'' ''.docx'' always_no, Rename ''1'' ''sub/x'']"

definition exported_fs :: fs where
  "exported_fs =
     sample_fs @
     [(tmp_dir, Dir),
      (Path ''/'' [''work'', ''temp_pdf_export_0123abcd'', ''report.pdf''], File ''PDF of doc A''),
      (Path ''/'' [''work'', ''temp_pdf_export_0123abcd'', ''report_1.pdf''], File ''PDF of doc B'')]"

section \<open>Properties of the catalog\<close>

lemma update_fresh: "k \<notin> set (map fst al) \<Longrightarrow> AList.update k v al = al @ [(k, v)]"
  by (induct al) auto

lemma update_split:
  "map_of al k = Some v \<Longrightarrow>
   \<exists>xs ys. al = xs @ (k, v) # ys \<and> k \<notin> fst ` set xs \<and> AList.update k v' al = xs @ (k, v') # ys"
proof (induct al)
  case Nil
  then show ?case by simp
next
  case (Cons p al)
  show ?case
  proof (cases "fst p = k")
    case True
    with Cons.prems have "p = (k, v)" by (cases p) simp
    then have "p # al = [] @ (k, v) # al \<and> k \<notin> fst ` set [] \<and> AList.update k v' (p # al) = [] @ (k, v') # al"
      by simp
    then show ?thesis by blast
  next
    case False
    with Cons.prems have "map_of al k = Some v" by (cases p) (simp split: if_splits)
    from Cons.hyps [OF this] obtain xs ys where
      h: "al = xs @ (k, v) # ys" "k \<notin> fst ` set xs" "AList.update k v' al = xs @ (k, v') # ys"
      by blast
    with False have "p # al = (p # xs) @ (k, v) # ys \<and> k \<notin> fst ` set (p # xs)
        \<and> AList.update k v' (p # al) = (p # xs) @ (k, v') # ys"
      by auto
    then show ?thesis by blast
  qed
qed

lemma full_name_triple: "full_name (a, b, c) = b @ c"
  by (simp add: full_name_def)

lemma inv_init: "catalog_inv init_model" "names_exact init_model"
  by (simp_all add: catalog_inv_def names_exact_def init_model_def live_names_def)

lemma inv_reset: "catalog_inv (reset m)" "names_exact (reset m)"
  by (simp_all add: catalog_inv_def names_exact_def reset_def live_names_def)

lemma inv_add: "catalog_inv m \<Longrightarrow> catalog_inv (snd (snd (add_file m p s x f)))"
  by (auto simp: catalog_inv_def add_file_def Let_def live_names_def AList.update_keys update_fresh full_name_def)


lemma inv_rename: 
  assumes "catalog_inv m" "update_file_stem m i s = Inr (r, m')"
  shows "catalog_inv m'"
proof -
  from assms(2) obtain k eid old ext where
    k: "py_int i = Some k" and e: "map_of (file_element_dict m) k = Some (eid, old, ext)"
    by (auto simp: update_file_stem_def split: option.splits)
  show ?thesis
  proof (cases "s @ ext \<noteq> old @ ext \<and> s @ ext \<in> unique_file_names m")
    case True
    with assms k e show ?thesis by (simp add: update_file_stem_def)
  next
    case False
    with assms(2) k e have m': "m' = m\<lparr>unique_file_names := insert (s @ ext) (unique_file_names m - {old @ ext}),
        file_element_dict := AList.update k (eid, s, ext) (file_element_dict m)\<rparr>"
      by (auto simp: update_file_stem_def Let_def)
    from update_split [OF e, of "(eid, s, ext)"] obtain xs ys where
      sp: "file_element_dict m = xs @ (k, eid, old, ext) # ys" "k \<notin> fst ` set xs"
          "AList.update k (eid, s, ext) (file_element_dict m) = xs @ (k, eid, s, ext) # ys"
      by blast
    from assms(1) have d: "distinct (map fst (xs @ (k, eid, old, ext) # ys))"
      and sub: "unique_file_names m \<subseteq> set (live_names m)"
      by (simp_all add: catalog_inv_def sp(1))
    have el: "file_element_dict m' = xs @ (k, eid, s, ext) # ys"
      using sp(3) by (simp add: m')
    have rest: "file_path_dict m' = file_path_dict m" "counter m' = counter m"
      "unique_file_names m' = insert (s @ ext) (unique_file_names m - {old @ ext})"
      by (simp_all add: m')
    have "unique_file_names m - {old @ ext} \<subseteq> set (live_names m')"
      using sub by (auto simp: live_names_def el sp(1) full_name_def)
    with assms(1) show ?thesis
      by (auto simp: catalog_inv_def el rest sp(1) live_names_def full_name_def)
  qed
qed


lemma strong_add:
  assumes "catalog_inv m" "names_exact m" "\<not> is_admitted_conflict m (Add p s x f)"
  shows "names_exact (snd (snd (add_file m p s x f)))"
proof (cases "fst (add_file m p s x f)")
  case None
  then have "snd (snd (add_file m p s x f)) = m"
    by (auto simp: add_file_def Let_def split: if_splits)
  with assms(2) show ?thesis by simp
next
  case (Some e)
  with assms(3) have nm: "s @ x \<notin> unique_file_names m"
    by (auto simp: is_admitted_conflict_def add_file_def Let_def split: if_splits)
  from Some have pth: "p \<notin> set (map snd (file_path_dict m))"
    by (auto simp: add_file_def split: if_splits)
  from assms(1) have fresh: "counter m \<notin> set (map fst (file_element_dict m))"
    by (auto simp: catalog_inv_def)
  from assms(1) nm have "unique_file_names m \<subseteq> set (live_names m)" by (simp add: catalog_inv_def)
  from assms(2) nm have "s @ x \<notin> set (live_names m)" by (auto simp: names_exact_def)
  with assms(2) pth nm fresh show ?thesis
    by (auto simp: names_exact_def add_file_def Let_def live_names_def update_fresh full_name_def)
qed

lemma strong_rename:
  assumes "catalog_inv m" "names_exact m" "update_file_stem m i s = Inr (r, m')"
  shows "names_exact m'"
proof -
  from assms(3) obtain k eid old ext where
    k: "py_int i = Some k" and e: "map_of (file_element_dict m) k = Some (eid, old, ext)"
    by (auto simp: update_file_stem_def split: option.splits)
  show ?thesis
  proof (cases "s @ ext \<noteq> old @ ext \<and> s @ ext \<in> unique_file_names m")
    case True
    with assms k e show ?thesis by (simp add: update_file_stem_def)
  next
    case False
    with assms(3) k e have m': "m' = m\<lparr>unique_file_names := insert (s @ ext) (unique_file_names m - {old @ ext}),
        file_element_dict := AList.update k (eid, s, ext) (file_element_dict m)\<rparr>"
      by (auto simp: update_file_stem_def Let_def)
    from update_split [OF e, of "(eid, s, ext)"] obtain xs ys where
      sp: "file_element_dict m = xs @ (k, eid, old, ext) # ys" "k \<notin> fst ` set xs"
          "AList.update k (eid, s, ext) (file_element_dict m) = xs @ (k, eid, s, ext) # ys"
      by blast
    have el: "file_element_dict m' = xs @ (k, eid, s, ext) # ys"
      using sp(3) by (simp add: m')
    have rest: "unique_file_names m' = insert (s @ ext) (unique_file_names m - {old @ ext})"
      by (simp add: m')
    define A where "A = map (\<lambda>kv. full_name (snd kv)) xs"
    define B where "B = map (\<lambda>kv. full_name (snd kv)) ys"
    have lm: "live_names m = A @ (old @ ext) # B"
      by (simp add: live_names_def sp(1) A_def B_def full_name_triple)
    have lm': "live_names m' = A @ (s @ ext) # B"
      by (simp add: live_names_def el A_def B_def full_name_triple)
    from assms(2) have cov: "set (live_names m) \<subseteq> unique_file_names m" and dis: "distinct (live_names m)"
      by (simp_all add: names_exact_def)
    from False cov have new: "s @ ext = old @ ext \<or> s @ ext \<notin> set (live_names m)" by auto
    show ?thesis
      using cov dis new unfolding names_exact_def rest lm lm'
      by auto
  qed
qed

lemma inv_apply_op: "catalog_inv m \<Longrightarrow> catalog_inv (apply_op m x)"
  by (cases x) (auto simp: inv_add inv_reset split: sum.splits dest: inv_rename)

lemma strong_apply_op: "catalog_inv m \<Longrightarrow> names_exact m \<Longrightarrow> \<not> is_admitted_conflict m x \<Longrightarrow> names_exact (apply_op m x)"
  by (cases x) (auto simp: strong_add inv_reset split: sum.splits dest: strong_rename)

lemma inv_run_ops: "catalog_inv m \<Longrightarrow> catalog_inv (run_ops m xs)"
  unfolding run_ops_def by (induct xs arbitrary: m) (simp_all add: inv_apply_op)

lemma strong_run_ops: "catalog_inv m \<Longrightarrow> names_exact m \<Longrightarrow> admitted_conflicts m xs = 0 \<Longrightarrow> names_exact (run_ops m xs)"
  unfolding run_ops_def
  by (induct xs arbitrary: m) (auto simp: inv_apply_op strong_apply_op split: if_splits)

lemma inv_weak:
  assumes "catalog_inv m"
  shows "paths_recorded m" "length (file_element_dict m) = length (file_path_dict m)"
    "card (unique_file_names m) \<le> length (file_path_dict m)"
proof -
  from assms have keys: "map fst (file_path_dict m) = map fst (file_element_dict m)"
    by (simp add: catalog_inv_def)
  show "paths_recorded m"
    unfolding paths_recorded_def keys [symmetric]
    by (auto simp: map_of_eq_None_iff)
  from keys show len: "length (file_element_dict m) = length (file_path_dict m)"
    by (metis length_map)
  from assms have "unique_file_names m \<subseteq> set (live_names m)" by (simp add: catalog_inv_def)
  then have "card (unique_file_names m) \<le> card (set (live_names m))"
    by (simp add: card_mono)
  also have "\<dots> \<le> length (live_names m)" by (rule card_length)
  finally show "card (unique_file_names m) \<le> length (file_path_dict m)"
    using len by (simp add: live_names_def)
qed

lemma inv_strong_consistent:
  assumes "catalog_inv m" "names_exact m"
  shows "consistent m"
proof -
  from assms have eq: "unique_file_names m = set (live_names m)" and d: "distinct (live_names m)"
    by (auto simp: catalog_inv_def names_exact_def)
  have "card (unique_file_names m) = length (live_names m)"
    unfolding eq using d by (rule distinct_card)
  with inv_weak [OF assms(1)] eq show ?thesis
    by (simp add: consistent_def names_cover_entries_def live_names_def)
qed

text \<open>
  C1, as the specification states it, fails: after two imports of the same display name,
  the second admitted by the callback, the catalog holds two entries and one name.
\<close>

theorem catalog_consistency_counterexample:
  "\<not> consistent (run_ops init_model twin_ops)"
  by code_simp

text \<open>
  C1, amended: after every sequence of add_file, update_file_stem and reset from the
  empty catalog, every entry's source path is recorded, the entry map and the path record
  have the same number of entries, every name of the set is the full display name of a
  live entry, and the set has at most as many names as there are entries. When no add
  was admitted through the name-conflict callback, the three structures are consistent in
  the full sense: every live full display name is in the set and the three cardinalities
  are equal.
\<close>

theorem catalog_consistency:
  "paths_recorded (run_ops init_model xs)
   \<and> length (file_element_dict (run_ops init_model xs)) = length (file_path_dict (run_ops init_model xs))
   \<and> unique_file_names (run_ops init_model xs) \<subseteq> set (live_names (run_ops init_model xs))
   \<and> card (unique_file_names (run_ops init_model xs)) \<le> length (file_path_dict (run_ops init_model xs))
   \<and> (admitted_conflicts init_model xs = 0 \<longrightarrow> consistent (run_ops init_model xs))"
proof -
  have i: "catalog_inv (run_ops init_model xs)"
    by (rule inv_run_ops) (rule inv_init)
  have "consistent (run_ops init_model xs)" if "admitted_conflicts init_model xs = 0"
    using i strong_run_ops [OF inv_init that] by (rule inv_strong_consistent)
  with inv_weak [OF i] i show ?thesis
    by (simp add: catalog_inv_def)
qed

theorem catalog_consistency_witness:
  "admitted_conflicts init_model tidy_ops = 0
   \<and> consistent (run_ops init_model tidy_ops)
   \<and> live_names (run_ops init_model tidy_ops) = [''report.docx'', ''minutes.docx'']"
proof -
  have h: "admitted_conflicts init_model tidy_ops = 0" by code_simp
  with catalog_consistency [of tidy_ops] have "consistent (run_ops init_model tidy_ops)"
    by blast
  moreover have "live_names (run_ops init_model tidy_ops) = [''report.docx'', ''minutes.docx'']"
    by code_simp
  ultimately show ?thesis using h by simp
qed

subsection \<open>Single calls\<close>

text \<open>
  What one call does when the name set knows the name in question. In a state where the
  set covers the live names, these are the behaviours the specification describes for a
  name conflict at import, a name conflict at rename, and a rename to the same stem.
\<close>

lemma add_file_name_in_set:
  assumes "absolute_path \<notin> set (map snd (file_path_dict m))"
    and "file_stem @ file_suffix \<in> unique_file_names m"
  shows "fst (snd (add_file m absolute_path file_stem file_suffix f)) = [file_stem @ file_suffix]"
    and "\<not> f (file_stem @ file_suffix) \<Longrightarrow>
           add_file m absolute_path file_stem file_suffix f = (None, [file_stem @ file_suffix], m)"
    and "f (file_stem @ file_suffix) \<Longrightarrow>
           fst (add_file m absolute_path file_stem file_suffix f) = Some (counter m, file_stem, file_suffix)"
  using assms by (simp_all add: add_file_def Let_def)

lemma update_file_stem_name_in_set:
  assumes "py_int file_id = Some i"
    and "map_of (file_element_dict m) i = Some (eid, old_stem, extension)"
    and "new_stem @ extension \<noteq> old_stem @ extension"
    and "new_stem @ extension \<in> unique_file_names m"
  shows "update_file_stem m file_id new_stem = Inr (None, m)"
  using assms by (simp add: update_file_stem_def)

lemma update_file_stem_same_stem:
  assumes "py_int file_id = Some i"
    and "map_of (file_element_dict m) i = Some (eid, old_stem, extension)"
    and "old_stem @ extension \<in> unique_file_names m"
  shows "update_file_stem m file_id old_stem = Inr (Some (eid, old_stem, extension), m)"
proof -
  have "insert (old_stem @ extension) (unique_file_names m - {old_stem @ extension}) = unique_file_names m"
    using assms(3) by auto
  moreover have "AList.update i (eid, old_stem, extension) (file_element_dict m) = file_element_dict m"
    using assms(2) by (rule AList.update_triv)
  ultimately show ?thesis
    using assms(1,2) by (simp add: update_file_stem_def Let_def)
qed

text \<open>
  C5: whatever the catalog state, add_file with a source path that is already recorded
  returns None, leaves the model as it was and calls the name-conflict callback not at
  all (the list of callback calls is empty), whether or not the display name collides.
\<close>

theorem add_file_duplicate_path:
  "absolute_path \<in> set (map snd (file_path_dict m)) \<Longrightarrow>
   add_file m absolute_path file_stem file_suffix ask_confirm_func = (None, [], m)"
  by (simp add: add_file_def)

theorem add_file_duplicate_path_witness:
  "''/a/report.docx'' \<in> set (map snd (file_path_dict (run_ops init_model twin_ops)))
   \<and> ''report.docx'' \<in> unique_file_names (run_ops init_model twin_ops)
   \<and> add_file (run_ops init_model twin_ops) ''/a/report.docx'' ''report'' ''.docx'' always_yes
       = (None, [], run_ops init_model twin_ops)"
proof -
  have h: "''/a/report.docx'' \<in> set (map snd (file_path_dict (run_ops init_model twin_ops)))"
    by code_simp
  have n: "''report.docx'' \<in> unique_file_names (run_ops init_model twin_ops)"
    by code_simp
  from add_file_duplicate_path [OF h] h n show ?thesis by simp
qed

text \<open>
  C9: update_file_stem returns an element or None only when the id has an entry. When
  \<open>int(file_id)\<close> is a number without entry in \<open>file_element_dict\<close>, the call
  raises KeyError; when it has an entry, the call returns.
\<close>

theorem update_file_stem_unknown_id:
  "py_int file_id = Some i \<Longrightarrow>
   (map_of (file_element_dict m) i = None \<longrightarrow> update_file_stem m file_id new_stem = Inl KeyError)
   \<and> (map_of (file_element_dict m) i \<noteq> None \<longrightarrow>
        (\<exists>r m'. update_file_stem m file_id new_stem = Inr (r, m')))"
  by (auto simp: update_file_stem_def Let_def split: option.splits)

theorem update_file_stem_unknown_id_witness:
  "py_int ''7'' = Some 7
   \<and> map_of (file_element_dict (run_ops init_model twin_ops)) 7 = None
   \<and> update_file_stem (run_ops init_model twin_ops) ''7'' ''x'' = Inl KeyError"
proof -
  have h: "py_int ''7'' = Some 7" by code_simp
  have n: "map_of (file_element_dict (run_ops init_model twin_ops)) 7 = None" by code_simp
  from update_file_stem_unknown_id [OF h, of "run_ops init_model twin_ops" "''x''"] h n
  show ?thesis by simp
qed

subsection \<open>The name set after the rename of an admitted twin\<close>

text \<open>
  \<open>stale_state\<close> is the catalog after importing /a/report.docx, importing and
  admitting /b/report.docx, and renaming entry 1 to x. update_file_stem has removed
  report.docx from the name set although entry 2 still carries that name. The three
  evaluations below show what the code does from there.
\<close>

text \<open>
  C6 at \<open>stale_state\<close>: /c/report.docx is a new source path and report.docx is the full
  display name of live entry 2, yet add_file never calls the callback (which would have
  answered no) and creates entry 3.
\<close>

theorem add_file_stale_name_no_prompt:
  "''report.docx'' \<in> set (live_names stale_state)
   \<and> ''/c/report.docx'' \<notin> set (map snd (file_path_dict stale_state))
   \<and> fst (add_file stale_state ''/c/report.docx'' ''report'' ''.docx'' always_no)
       = Some (3, ''report'', ''.docx'')
   \<and> fst (snd (add_file stale_state ''/c/report.docx'' ''report'' ''.docx'' always_no)) = []"
  by code_simp

text \<open>
  C7 at \<open>stale_state\<close>: renaming entry 1 to report gives report.docx, which differs from
  its current x.docx and is the name of live entry 2; update_file_stem returns the
  renamed element instead of None and mutates the catalog.
\<close>

theorem update_file_stem_stale_name_accepted:
  "map_of (file_element_dict stale_state) 1 = Some (1, ''x'', ''.docx'')
   \<and> map_of (file_element_dict stale_state) 2 = Some (2, ''report'', ''.docx'')
   \<and> update_file_stem stale_state ''1'' ''report''
       = Inr (Some (1, ''report'', ''.docx''),
              stale_state\<lparr>unique_file_names := {''report.docx''},
                file_element_dict := [(1, 1, ''report'', ''.docx''), (2, 2, ''report'', ''.docx'')]\<rparr>)"
  by code_simp

text \<open>
  C8 at \<open>stale_state\<close>: renaming entry 2 to its current stem returns the element
  unchanged, but the catalog is not left as it was: report.docx enters the name set.
\<close>

theorem update_file_stem_same_stem_adds_name:
  "map_of (file_element_dict stale_state) 2 = Some (2, ''report'', ''.docx'')
   \<and> ''report.docx'' \<notin> unique_file_names stale_state
   \<and> update_file_stem stale_state ''2'' ''report''
       = Inr (Some (2, ''report'', ''.docx''),
              stale_state\<lparr>unique_file_names := insert ''report.docx'' (unique_file_names stale_state)\<rparr>)"
  by code_simp

section \<open>Properties of the export pipeline\<close>

subsection \<open>The final name of a converted file\<close>

lemma find_free_spec:
  "\<not> path_exists t (find_free t d b p0 n)
   \<and> (find_free t d b p0 n = p0
      \<or> (path_exists t p0
          \<and> (\<exists>k\<ge>n. find_free t d b p0 n = numbered_pdf d b k
                \<and> (\<forall>j. n \<le> j \<and> j < k \<longrightarrow> path_exists t (numbered_pdf d b j)))))"
proof (induction t d b p0 n rule: find_free.induct)
  case (1 t d b p0 n)
  show ?case
  proof (cases "path_exists t p0")
    case False
    then show ?thesis by (subst (1 2) find_free.simps) simp
  next
    case True
    let ?r = "find_free t d b (numbered_pdf d b n) (n + 1)"
    from True have eq: "find_free t d b p0 n = ?r" by (subst find_free.simps) simp
    from 1 [OF True] have free: "\<not> path_exists t ?r"
      and alt: "?r = numbered_pdf d b n
        \<or> (path_exists t (numbered_pdf d b n)
            \<and> (\<exists>k\<ge>n + 1. ?r = numbered_pdf d b k
                  \<and> (\<forall>j. n + 1 \<le> j \<and> j < k \<longrightarrow> path_exists t (numbered_pdf d b j))))"
      by blast+
    from alt have "\<exists>k\<ge>n. ?r = numbered_pdf d b k
        \<and> (\<forall>j. n \<le> j \<and> j < k \<longrightarrow> path_exists t (numbered_pdf d b j))"
    proof
      assume "?r = numbered_pdf d b n"
      then show ?thesis by (intro exI [of _ n]) auto
    next
      assume "path_exists t (numbered_pdf d b n)
            \<and> (\<exists>k\<ge>n + 1. ?r = numbered_pdf d b k
                  \<and> (\<forall>j. n + 1 \<le> j \<and> j < k \<longrightarrow> path_exists t (numbered_pdf d b j)))"
      then obtain k where k: "n + 1 \<le> k" "?r = numbered_pdf d b k"
        "\<forall>j. n + 1 \<le> j \<and> j < k \<longrightarrow> path_exists t (numbered_pdf d b j)"
        and ex: "path_exists t (numbered_pdf d b n)" by blast
      have "\<forall>j. n \<le> j \<and> j < k \<longrightarrow> path_exists t (numbered_pdf d b j)"
      proof (intro allI impI)
        fix j assume "n \<le> j \<and> j < k"
        then have "j = n \<or> (n + 1 \<le> j \<and> j < k)" by auto
        with ex k(3) show "path_exists t (numbered_pdf d b j)" by auto
      qed
      with k(1,2) show ?thesis by (intro exI [of _ k]) simp
    qed
    with True free show ?thesis unfolding eq by blast
  qed
qed

lemma under_refl: "under d d"
  by (simp add: under_def)

lemma map_of_filter_keep:
  "P d \<Longrightarrow> map_of (filter (\<lambda>kv. P (fst kv)) t) d = map_of t d"
  by (induction t) auto

lemma map_of_filter_drop:
  "\<not> P d \<Longrightarrow> map_of (filter (\<lambda>kv. P (fst kv)) t) d = None"
  by (induction t) auto

text \<open>
  The loop itself does what the specification says of it: the path chosen is
  \<open>displayStem.pdf\<close> in the working directory when that is free, otherwise
  \<open>displayStem_k.pdf\<close> for the first k, counting from 1, that is free.
\<close>

lemma resolve_final_path_first_free:
  "\<not> path_exists t (resolve_final_path t d stem)
   \<and> (\<not> path_exists t (joinpath d (stem @ ''.pdf'')) \<longrightarrow>
        resolve_final_path t d stem = joinpath d (stem @ ''.pdf''))
   \<and> (path_exists t (joinpath d (stem @ ''.pdf'')) \<longrightarrow>
        (\<exists>k\<ge>1. resolve_final_path t d stem = joinpath d (stem @ ''_'' @ py_str k @ ''.pdf'')
           \<and> (\<forall>j. 1 \<le> j \<and> j < k \<longrightarrow>
                 path_exists t (joinpath d (stem @ ''_'' @ py_str j @ ''.pdf'')))))"
proof -
  let ?p0 = "joinpath d (stem @ ''.pdf'')"
  note spec = find_free_spec [of t d stem ?p0 1, unfolded numbered_pdf_def,
      folded resolve_final_path_def]
  have free: "\<not> path_exists t (resolve_final_path t d stem)"
    using spec by blast
  have first: "resolve_final_path t d stem = ?p0" if "\<not> path_exists t ?p0"
    unfolding resolve_final_path_def using that by (subst find_free.simps) simp
  have later: "\<exists>k\<ge>1. resolve_final_path t d stem = joinpath d (stem @ ''_'' @ py_str k @ ''.pdf'')
           \<and> (\<forall>j. 1 \<le> j \<and> j < k \<longrightarrow>
                 path_exists t (joinpath d (stem @ ''_'' @ py_str j @ ''.pdf'')))"
    if "path_exists t ?p0"
  proof -
    from that free have "resolve_final_path t d stem \<noteq> ?p0" by auto
    with spec show ?thesis by blast
  qed
  from free first later show ?thesis by blast
qed

text \<open>
  The scenario of the specification goes through: of the two entries named report, the
  first ends as report.pdf, the second as report_1.pdf, and the archive holds these two.
\<close>

lemma export_twin_scenario:
  "export soffice_ok twin_model tmp_dir sample_fs = (None, exported_fs)
   \<and> archive_entries exported_fs tmp_dir
       = {|(''report.pdf'', File ''PDF of doc A''), (''report_1.pdf'', File ''PDF of doc B'')|}
   \<and> map_of (r_fs (run_export_in_thread soffice_ok work_dir ''0123abcd'' ''9f8e7d6c'' ''/out''
                     twin_model sample_fs))
        (Path ''/'' [''out'', ''Export_PDFs_out_9f8e.zip''])
       = Some (Zip {|(''report.pdf'', File ''PDF of doc A''), (''report_1.pdf'', File ''PDF of doc B'')|})"
  by code_simp

subsection \<open>A converter output that lands on an earlier final name\<close>

text \<open>
  C4 at \<open>clash_model\<close>. Entry 1 (/a/report.docx) has the display stem 2_report, entry 2
  (/b/report.docx) the display stem report. Entry 1 is converted and renamed to
  2_report.pdf. The staged copy of entry 2 is 2_report.docx, so the converter writes its
  output to 2_report.pdf, over the finished PDF of entry 1, and that file is then renamed
  to report.pdf. Export returns without exception; the working directory holds one PDF
  for two entries, no file is named after the display stem of entry 1, and the controller
  archives the single file and reports success.
\<close>

theorem export_overwrites_earlier_pdf:
  "live_names clash_model = [''2_report.docx'', ''report.docx'']
   \<and> map_of (snd (export_entry soffice_ok clash_model tmp_dir (sample_fs @ [(tmp_dir, Dir)])
                    (1, ''/a/report.docx'')))
        (joinpath tmp_dir ''2_report.pdf'') = Some (File ''PDF of doc A'')
   \<and> fst (export soffice_ok clash_model tmp_dir sample_fs) = None
   \<and> map_of (snd (export soffice_ok clash_model tmp_dir sample_fs)) (joinpath tmp_dir ''2_report.pdf'')
       = None
   \<and> archive_entries (snd (export soffice_ok clash_model tmp_dir sample_fs)) tmp_dir
       = {|(''report.pdf'', File ''PDF of doc B'')|}
   \<and> r_raised (run_export_in_thread soffice_ok work_dir ''0123abcd'' ''9f8e7d6c'' ''/out''
                  clash_model sample_fs) = None
   \<and> map_of (r_fs (run_export_in_thread soffice_ok work_dir ''0123abcd'' ''9f8e7d6c'' ''/out''
                     clash_model sample_fs))
        (Path ''/'' [''out'', ''Export_PDFs_out_9f8e.zip''])
       = Some (Zip {|(''report.pdf'', File ''PDF of doc B'')|})"
  by code_simp

text \<open>
  A display stem is not checked for separators either. With the stem /out/evil the final
  path is absolute: the PDF leaves the working directory and the archive is empty. With
  the stem sub/x the rename has no directory to go to and the export ends in OSError.
\<close>

lemma export_stem_with_separator:
  "map_of (r_fs (run_export_in_thread soffice_ok work_dir ''0123abcd'' ''9f8e7d6c'' ''/out''
                   escape_model sample_fs))
      (Path ''/'' [''out'', ''evil.pdf'']) = Some (File ''PDF of doc A'')
   \<and> map_of (r_fs (run_export_in_thread soffice_ok work_dir ''0123abcd'' ''9f8e7d6c'' ''/out''
                     escape_model sample_fs))
        (Path ''/'' [''out'', ''Export_PDFs_out_9f8e.zip'']) = Some (Zip {||})
   \<and> fst (export soffice_ok nested_model tmp_dir sample_fs) = Some OSError"
  by code_simp

subsection \<open>A failed conversion\<close>

text \<open>
  Names without a separator parse to a single component, so the staged copy and the
  converter's output are children of the working directory. No step of the export turns
  the working directory into anything but a directory.
\<close>

lemma split_sep_no_sep: "x \<in> set (split_sep s) \<Longrightarrow> CHR ''/'' \<notin> set x"
  by (induction s arbitrary: x) (auto split: list.splits if_splits)

lemma split_sep_plain: "CHR ''/'' \<notin> set s \<Longrightarrow> split_sep s = [s]"
  by (induction s) auto

lemma parse_path_plain:
  assumes "CHR ''/'' \<notin> set s" "s \<noteq> []" "s \<noteq> ''.''"
  shows "parse_path s = Path [] [s]"
proof -
  obtain c cs where s: "s = c # cs" using assms(2) by (cases s) auto
  with assms(1) have "takeWhile (\<lambda>x. x = CHR ''/'') s = []" by auto
  with assms show ?thesis by (simp add: parse_path_def split_sep_plain)
qed

lemma joinpath_plain:
  "CHR ''/'' \<notin> set s \<Longrightarrow> s \<noteq> [] \<Longrightarrow> s \<noteq> ''.'' \<Longrightarrow> joinpath d s = Path (p_root d) (p_parts d @ [s])"
  by (simp add: joinpath_def parse_path_plain)

lemma path_name_no_sep: "CHR ''/'' \<notin> set (path_name (parse_path s))"
proof (cases "rev (p_parts (parse_path s))")
  case Nil
  then show ?thesis by (simp add: path_name_def)
next
  case (Cons x xs)
  then have "x \<in> set (p_parts (parse_path s))"
    by (metis list.set_intros(1) set_rev)
  then have "x \<in> set (split_sep s)" by (simp add: parse_path_def)
  then have "CHR ''/'' \<notin> set x" by (rule split_sep_no_sep)
  with Cons show ?thesis by (simp add: path_name_def)
qed

lemma py_str_nonempty: "py_str n \<noteq> []"
  using nat_digits_plain by (simp add: py_str_def)

lemma staged_path:
  "joinpath d (py_str i @ ''_'' @ path_name (parse_path original_path))
     = Path (p_root d) (p_parts d @ [py_str i @ ''_'' @ path_name (parse_path original_path)])"
proof (rule joinpath_plain)
  show "CHR ''/'' \<notin> set (py_str i @ ''_'' @ path_name (parse_path original_path))"
    using py_str_no_sep [of i] path_name_no_sep [of original_path] by simp
  show "py_str i @ ''_'' @ path_name (parse_path original_path) \<noteq> []"
    by simp
  have len: "length (py_str i @ ''_'' @ path_name (parse_path original_path)) \<ge> 2"
    using py_str_nonempty [of i] by (cases "py_str i") auto
  show "py_str i @ ''_'' @ path_name (parse_path original_path) \<noteq> ''.''"
  proof
    assume "py_str i @ ''_'' @ path_name (parse_path original_path) = ''.''"
    then have "length (py_str i @ ''_'' @ path_name (parse_path original_path)) = length ''.''"
      by (simp only:)
    with len show False by simp
  qed
qed

lemma generated_path:
  assumes "CHR ''/'' \<notin> set s"
  shows "joinpath d (path_stem (Path r (ps @ [s])) @ ''.pdf'')
     = Path (p_root d) (p_parts d @ [path_stem (Path r (ps @ [s])) @ ''.pdf''])"
proof (rule joinpath_plain)
  have n: "path_name (Path r (ps @ [s])) = s" by (simp add: path_name_def)
  have "set (path_stem (Path r (ps @ [s]))) \<subseteq> set s"
    unfolding path_stem_def n by (rule set_take_subset)
  with assms show "CHR ''/'' \<notin> set (path_stem (Path r (ps @ [s])) @ ''.pdf'')" by auto
  show "path_stem (Path r (ps @ [s])) @ ''.pdf'' \<noteq> []" by simp
  have len: "length (path_stem (Path r (ps @ [s])) @ ''.pdf'') \<ge> 4" by simp
  show "path_stem (Path r (ps @ [s])) @ ''.pdf'' \<noteq> ''.''"
  proof
    assume "path_stem (Path r (ps @ [s])) @ ''.pdf'' = ''.''"
    then have "length (path_stem (Path r (ps @ [s])) @ ''.pdf'') = length ''.''"
      by (simp only:)
    with len show False by simp
  qed
qed

lemma not_under_child: "\<not> under (Path (p_root d) (p_parts d @ [g])) d"
  by (simp add: under_def)

lemma keep_write:
  "write_file t p n = Inr t' \<Longrightarrow> map_of t d = Some Dir \<Longrightarrow> map_of t' d = Some Dir"
  by (auto simp: write_file_def is_dir_def update_conv' split: if_splits)

lemma keep_copy:
  "shutil_copy t src dst = Inr t' \<Longrightarrow> map_of t d = Some Dir \<Longrightarrow> map_of t' d = Some Dir"
  by (auto simp: shutil_copy_def Let_def split: if_splits option.splits dest: keep_write)

lemma keep_remove:
  "os_remove t p = Inr t' \<Longrightarrow> map_of t d = Some Dir \<Longrightarrow> map_of t' d = Some Dir"
  by (auto simp: os_remove_def is_dir_def delete_conv' split: if_splits)

lemma keep_rename:
  assumes "os_rename t src dst = Inr t'" "map_of t d = Some Dir"
    and "\<not> path_exists t dst" "\<not> under src d"
  shows "map_of t' d = Some Dir"
proof -
  from assms(2,3) have ne: "d \<noteq> dst" by (auto simp: path_exists_def)
  show ?thesis
  proof (cases "src = dst")
    case True
    with assms show ?thesis by (auto simp: os_rename_def split: if_splits)
  next
    case False
    show ?thesis
    proof (cases "map_of t src = Some Dir")
      case True
      with assms(1) False have t': "t' = filter (\<lambda>kv. \<not> under src (fst kv) \<and> fst kv \<noteq> dst) t
                   @ map (\<lambda>kv. (rebase src dst (fst kv), snd kv)) (filter (\<lambda>kv. under src (fst kv)) t)"
        by (auto simp: os_rename_def split: if_splits)
      have "map_of (filter (\<lambda>kv. \<not> under src (fst kv) \<and> fst kv \<noteq> dst) t) d = map_of t d"
        using map_of_filter_keep [of "\<lambda>p. \<not> under src p \<and> p \<noteq> dst" d t] assms(4) ne by simp
      with assms(2) show ?thesis by (simp add: t')
    next
      case nd: False
      with assms(1) False obtain n where n: "map_of t src = Some n"
        and t': "t' = AList.update dst n (AList.delete src t)"
        by (auto simp: os_rename_def split: if_splits option.splits)
      from nd n assms(2) have "src \<noteq> d" by auto
      with ne assms(2) show ?thesis by (simp add: t' update_conv' delete_conv')
    qed
  qed
qed


lemma keep_soffice:
  "run_soffice soffice t outdir input = (e, t') \<Longrightarrow> map_of t d = Some Dir \<Longrightarrow> map_of t' d = Some Dir"
  by (auto simp: run_soffice_def split: proc_result.splits option.splits sum.splits dest: keep_write)

lemma keep_convert:
  assumes "convert_and_rename soffice t d staged (Path (p_root d) (p_parts d @ [g])) stem = (e, t')"
    and "map_of t d = Some Dir"
  shows "map_of t' d = Some Dir"
proof -
  obtain e1 t1 where s: "run_soffice soffice t d staged = (e1, t1)"
    by (cases "run_soffice soffice t d staged") auto
  from keep_soffice [OF s assms(2)] have k1: "map_of t1 d = Some Dir" .
  show ?thesis
  proof (cases e1)
    case (Some a)
    with assms(1) s k1 show ?thesis by (simp add: convert_and_rename_def)
  next
    case None
    let ?dst = "resolve_final_path t1 d stem"
    let ?src = "Path (p_root d) (p_parts d @ [g])"
    have free: "\<not> path_exists t1 ?dst"
      unfolding resolve_final_path_def using find_free_spec by blast
    show ?thesis
    proof (cases "path_exists t1 ?src")
      case False
      with assms(1) s None k1 show ?thesis by (simp add: convert_and_rename_def Let_def)
    next
      case True
      show ?thesis
      proof (cases "os_rename t1 ?src ?dst")
        case (Inl a)
        with assms(1) s None True k1 show ?thesis by (simp add: convert_and_rename_def Let_def)
      next
        case (Inr t2)
        from keep_rename [OF Inr k1 free not_under_child] have "map_of t2 d = Some Dir" .
        with assms(1) s None True Inr show ?thesis by (simp add: convert_and_rename_def Let_def)
      qed
    qed
  qed
qed

lemma keep_staged:
  "remove_staged (e, t) p = (e', t') \<Longrightarrow> map_of t d = Some Dir \<Longrightarrow> map_of t' d = Some Dir"
  by (auto simp: remove_staged_def split: if_splits sum.splits dest: keep_remove)

lemma keep_entry:
  assumes "export_entry soffice m d t item = (e, t')" "map_of t d = Some Dir"
  shows "map_of t' d = Some Dir"
proof -
  obtain file_id original_path where item: "item = (file_id, original_path)" by (cases item)
  show ?thesis
  proof (cases "map_of (file_element_dict m) file_id")
    case None
    with assms item show ?thesis by (simp add: export_entry_def)
  next
    case (Some fe)
    define name where "name = py_str file_id @ ''_'' @ path_name (parse_path original_path)"
    define staged where "staged = Path (p_root d) (p_parts d @ [name])"
    define g where "g = path_stem staged @ ''.pdf''"
    have st: "joinpath d name = staged"
      unfolding name_def staged_def by (rule staged_path)
    have nosep: "CHR ''/'' \<notin> set name"
      unfolding name_def using py_str_no_sep [of file_id] path_name_no_sep [of original_path] by simp
    have gen: "joinpath d g = Path (p_root d) (p_parts d @ [g])"
      unfolding g_def staged_def using nosep by (rule generated_path)
    have entry: "export_entry soffice m d t item =
        (case shutil_copy t (parse_path original_path) staged of
           Inl e \<Rightarrow> (Some e, t)
         | Inr t1 \<Rightarrow>
             remove_staged
               (convert_and_rename soffice t1 d staged (Path (p_root d) (p_parts d @ [g])) (fst (snd fe)))
               staged)"
      unfolding export_entry_def item prod.case Some option.case Let_def
        name_def [symmetric] st g_def [symmetric] gen ..
    show ?thesis
    proof (cases "shutil_copy t (parse_path original_path) staged")
      case (Inl a)
      with assms entry show ?thesis by simp
    next
      case (Inr t1)
      from keep_copy [OF Inr assms(2)] have k1: "map_of t1 d = Some Dir" .
      obtain e2 t2 where c: "convert_and_rename soffice t1 d staged (Path (p_root d) (p_parts d @ [g]))
          (fst (snd fe)) = (e2, t2)"
        by (cases "convert_and_rename soffice t1 d staged (Path (p_root d) (p_parts d @ [g])) (fst (snd fe))") auto
      from keep_convert [OF c k1] have k2: "map_of t2 d = Some Dir" .
      from assms(1) entry Inr c have "remove_staged (e2, t2) staged = (e, t')" by simp
      from keep_staged [OF this k2] show ?thesis .
    qed
  qed
qed

lemma keep_items:
  "export_items soffice m d t items = (e, t') \<Longrightarrow> map_of t d = Some Dir \<Longrightarrow> map_of t' d = Some Dir"
proof (induction items arbitrary: t)
  case Nil
  then show ?case by simp
next
  case (Cons item items)
  obtain e1 t1 where s: "export_entry soffice m d t item = (e1, t1)"
    by (cases "export_entry soffice m d t item") auto
  from keep_entry [OF s Cons.prems(2)] have k: "map_of t1 d = Some Dir" .
  show ?case
  proof (cases e1)
    case None
    with Cons.prems(1) s have "export_items soffice m d t1 items = (e, t')" by simp
    from Cons.IH [OF this k] show ?thesis .
  next
    case (Some a)
    with Cons.prems(1) s k show ?thesis by simp
  qed
qed

lemma mkdir_parents_effect:
  "mkdir_parents t p = Inr t' \<Longrightarrow>
   is_dir t' p
   \<and> (\<forall>r. map_of t r \<noteq> None \<longrightarrow> map_of t' r = map_of t r)
   \<and> (\<forall>r. map_of t r = None \<and> map_of t' r \<noteq> None \<longrightarrow> length (p_parts r) \<le> length (p_parts p))"
proof (induction t p arbitrary: t' rule: mkdir_parents.induct)
  case (1 t p)
  show ?case
  proof (cases "path_exists t p")
    case True
    with "1.prems" show ?thesis
      by (subst (asm) mkdir_parents.simps) (auto split: if_splits)
  next
    case False
    then have np: "map_of t p = None" "p_parts p \<noteq> []" by (auto simp: path_exists_def)
    show ?thesis
    proof (cases "is_dir t (path_parent p)")
      case True
      with False "1.prems" have "t' = t @ [(p, Dir)]"
        by (subst (asm) mkdir_parents.simps) simp
      with np show ?thesis
        by (auto simp: is_dir_def map_add_def split: option.splits)
    next
      case nd: False
      show ?thesis
      proof (cases "path_exists t (path_parent p)")
        case True
        with False nd "1.prems" show ?thesis
          by (subst (asm) mkdir_parents.simps) simp
      next
        case ne: False
        from False nd ne "1.prems" obtain t1 where
          r: "mkdir_parents t (path_parent p) = Inr t1" and t': "t' = t1 @ [(p, Dir)]"
          by (subst (asm) mkdir_parents.simps) (auto split: sum.splits)
        from "1.IH" [OF False nd ne r] have
          keep: "\<forall>r. map_of t r \<noteq> None \<longrightarrow> map_of t1 r = map_of t r"
          and new: "\<forall>r. map_of t r = None \<and> map_of t1 r \<noteq> None \<longrightarrow>
              length (p_parts r) \<le> length (p_parts (path_parent p))"
          by blast+
        have lt: "length (p_parts (path_parent p)) < length (p_parts p)"
          using np(2) by (simp add: path_parent_def)
        with new np(1) have "map_of t1 p = None" by force
        then have a: "is_dir t' p" by (simp add: is_dir_def t' map_add_def)
        have b: "\<forall>r. map_of t r \<noteq> None \<longrightarrow> map_of t' r = map_of t r"
          using keep by (auto simp: t' map_add_def split: option.splits)
        have c: "\<forall>r. map_of t r = None \<and> map_of t' r \<noteq> None \<longrightarrow> length (p_parts r) \<le> length (p_parts p)"
          using new lt by (auto simp: t' map_add_def split: option.splits if_splits)
        from a b c show ?thesis by blast
      qed
    qed
  qed
qed

lemma export_keeps_dir:
  assumes "export soffice m d t = (Some CalledProcessError, t')" "p_parts d \<noteq> []"
  shows "map_of t' d = Some Dir"
proof (cases "mkdir_parents t d")
  case (Inl a)
  with assms(1) have "a = CalledProcessError" by (simp add: export_def)
  moreover have "a = OSError"
    using Inl by (induction t d rule: mkdir_parents.induct)
      (subst (asm) mkdir_parents.simps, auto split: if_splits sum.splits)
  ultimately show ?thesis by simp
next
  case (Inr t1)
  from mkdir_parents_effect [OF Inr] assms(2) have "map_of t1 d = Some Dir"
    by (simp add: is_dir_def)
  moreover from assms(1) Inr have "export_items soffice m d t1 (file_path_dict m) = (Some CalledProcessError, t')"
    by (simp add: export_def)
  ultimately show ?thesis by (rule keep_items [rotated])
qed


lemma parse_path_head:
  assumes "c \<noteq> CHR ''/''" "c \<noteq> CHR ''.''"
  shows "p_root (parse_path (c # cs)) = [] \<and> p_parts (parse_path (c # cs)) \<noteq> []"
proof -
  obtain w ws where "split_sep cs = w # ws"
    using split_sep_nonempty [of cs] by (cases "split_sep cs") auto
  with assms show ?thesis by (simp add: parse_path_def)
qed

lemma temp_dir_parts: "p_parts (joinpath cwd (''temp_pdf_export_'' @ token)) \<noteq> []"
proof -
  have "''temp_pdf_export_'' @ token = CHR ''t'' # (''emp_pdf_export_'' @ token)" by simp
  moreover have "p_root (parse_path (CHR ''t'' # (''emp_pdf_export_'' @ token))) = []
      \<and> p_parts (parse_path (CHR ''t'' # (''emp_pdf_export_'' @ token))) \<noteq> []"
    by (rule parse_path_head) simp_all
  ultimately show ?thesis by (simp add: joinpath_def)
qed

text \<open>
  C2: when Model.export raises CalledProcessError (the converter exited non-zero on an
  entry), \<open>_run_export_in_thread\<close> never reaches create_zip_archive: no archive path is
  produced and the tree is the one export left, with the working directory and all below
  it removed. The working directory does not exist afterwards, the model is the one before
  the export, the exception is handled, and the view is told of the failed conversion and
  gets its controls back.
\<close>

theorem converter_failure_rolls_back:
  assumes "fst (export soffice m (joinpath cwd (''temp_pdf_export_'' @ token1)) t) = Some CalledProcessError"
  shows "r_model (run_export_in_thread soffice cwd token1 token2 directory m t) = m
     \<and> r_zip_file_path (run_export_in_thread soffice cwd token1 token2 directory m t) = None
     \<and> \<not> path_exists (r_fs (run_export_in_thread soffice cwd token1 token2 directory m t))
           (joinpath cwd (''temp_pdf_export_'' @ token1))
     \<and> r_fs (run_export_in_thread soffice cwd token1 token2 directory m t)
         = filter (\<lambda>kv. \<not> under (joinpath cwd (''temp_pdf_export_'' @ token1)) (fst kv))
             (snd (export soffice m (joinpath cwd (''temp_pdf_export_'' @ token1)) t))
     \<and> r_raised (run_export_in_thread soffice cwd token1 token2 directory m t) = None
     \<and> r_events (run_export_in_thread soffice cwd token1 token2 directory m t)
         = [UpdateStatus (get_file_count m) Converting,
            UpdateStatus (get_file_count m) ConversionFailed,
            SetControlStates True]"
proof -
  define d where "d = joinpath cwd (''temp_pdf_export_'' @ token1)"
  have parts: "p_parts d \<noteq> []" unfolding d_def by (rule temp_dir_parts)
  obtain t1 where e: "export soffice m d t = (Some CalledProcessError, t1)"
    using assms unfolding d_def [symmetric] by (cases "export soffice m d t") auto
  from export_keeps_dir [OF e parts] have dir: "map_of t1 d = Some Dir" .
  have body: "export_and_archive soffice d token2 directory m t =
      \<lparr>r_model = m, r_fs = t1, r_events = [UpdateStatus (get_file_count m) Converting],
        r_zip_file_path = None, r_raised = Some CalledProcessError\<rparr>"
    by (simp add: export_and_archive_def e Let_def)
  have rm: "rmtree t1 d = Inr (filter (\<lambda>kv. \<not> under d (fst kv)) t1)"
    using dir by (simp add: rmtree_def path_exists_def is_dir_def)
  have ex: "path_exists t1 d" using dir by (simp add: path_exists_def)
  have run: "run_export_in_thread soffice cwd token1 token2 directory m t =
      \<lparr>r_model = m, r_fs = filter (\<lambda>kv. \<not> under d (fst kv)) t1,
        r_events = [UpdateStatus (get_file_count m) Converting,
                    UpdateStatus (get_file_count m) ConversionFailed, SetControlStates True],
        r_zip_file_path = None, r_raised = None\<rparr>"
    unfolding run_export_in_thread_def d_def [symmetric]
    by (simp add: body Let_def ex rm)
  have gone: "map_of (filter (\<lambda>kv. \<not> under d (fst kv)) t1) d = None"
    using map_of_filter_drop [of "\<lambda>p. \<not> under d p" d t1] by (simp add: under_refl)
  have "\<not> path_exists (filter (\<lambda>kv. \<not> under d (fst kv)) t1) d"
    using gone parts by (simp add: path_exists_def)
  then show ?thesis
    unfolding d_def [symmetric] run by (simp add: e)
qed

theorem converter_failure_rolls_back_witness:
  "fst (export soffice_fail_b trio_model (joinpath work_dir (''temp_pdf_export_'' @ ''0123abcd'')) sample_fs)
     = Some CalledProcessError
   \<and> get_file_count trio_model = 3
   \<and> r_model (run_export_in_thread soffice_fail_b work_dir ''0123abcd'' ''9f8e7d6c'' ''/out'' trio_model sample_fs)
       = trio_model
   \<and> r_zip_file_path (run_export_in_thread soffice_fail_b work_dir ''0123abcd'' ''9f8e7d6c'' ''/out'' trio_model sample_fs)
       = None
   \<and> r_fs (run_export_in_thread soffice_fail_b work_dir ''0123abcd'' ''9f8e7d6c'' ''/out'' trio_model sample_fs)
       = sample_fs"
proof -
  have h: "fst (export soffice_fail_b trio_model (joinpath work_dir (''temp_pdf_export_'' @ ''0123abcd'')) sample_fs)
     = Some CalledProcessError"
    by code_simp
  have n: "get_file_count trio_model = 3" by code_simp
  have f: "r_fs (run_export_in_thread soffice_fail_b work_dir ''0123abcd'' ''9f8e7d6c'' ''/out'' trio_model sample_fs)
       = sample_fs"
    by code_simp
  from converter_failure_rolls_back [OF h, of "''9f8e7d6c''" "''/out''"]
  have "r_model (run_export_in_thread soffice_fail_b work_dir ''0123abcd'' ''9f8e7d6c'' ''/out'' trio_model sample_fs)
       = trio_model
    \<and> r_zip_file_path (run_export_in_thread soffice_fail_b work_dir ''0123abcd'' ''9f8e7d6c'' ''/out'' trio_model sample_fs)
       = None"
    by blast
  with h n f show ?thesis by blast
qed

subsection \<open>The path that create_zip_archive returns\<close>

text \<open>
  C3 at a base name with a dot in it. The destination directory is /out/v1.2, so the
  controller's base name is Export_PDFs_v1.2_9f8e. \<open>make_archive\<close> writes
  Export_PDFs_v1.2_9f8e.zip; \<open>with_suffix\<close> takes .2_9f8e for a suffix and replaces it,
  and the function returns the path of Export_PDFs_v1.zip, which does not exist.
\<close>

theorem create_zip_archive_dotted_base_name:
  "fst (create_zip_archive exported_fs tmp_dir ''/out/v1.2'' ''Export_PDFs_v1.2_9f8e'')
     = Inr ''/out/v1.2/Export_PDFs_v1.zip''
   \<and> \<not> path_exists (snd (create_zip_archive exported_fs tmp_dir ''/out/v1.2'' ''Export_PDFs_v1.2_9f8e''))
        (parse_path ''/out/v1.2/Export_PDFs_v1.zip'')
   \<and> map_of (snd (create_zip_archive exported_fs tmp_dir ''/out/v1.2'' ''Export_PDFs_v1.2_9f8e''))
        (parse_path ''/out/v1.2/Export_PDFs_v1.2_9f8e.zip'')
       = Some (Zip {|(''report.pdf'', File ''PDF of doc A''), (''report_1.pdf'', File ''PDF of doc B'')|})"
  by code_simp

subsection \<open>The catalog after a successful export\<close>

text \<open>
  C10: when Model.export returns without exception and create_zip_archive returns a path,
  the controller resets the model: the catalog is the empty one, the count is 0, the
  counter is 1, and the next add_file creates the element with id 1.
\<close>

theorem export_success_resets_catalog:
  assumes "fst (export soffice m (joinpath cwd (''temp_pdf_export_'' @ token1)) t) = None"
    and "fst (create_zip_archive (snd (export soffice m (joinpath cwd (''temp_pdf_export_'' @ token1)) t))
            (joinpath cwd (''temp_pdf_export_'' @ token1)) directory
            (''Export_PDFs_'' @ path_name (parse_path directory) @ ''_'' @ take 4 token2)) = Inr z"
  shows "r_model (run_export_in_thread soffice cwd token1 token2 directory m t) = init_model
     \<and> get_file_count (r_model (run_export_in_thread soffice cwd token1 token2 directory m t)) = 0
     \<and> counter (r_model (run_export_in_thread soffice cwd token1 token2 directory m t)) = 1
     \<and> fst (add_file (r_model (run_export_in_thread soffice cwd token1 token2 directory m t))
              absolute_path file_stem file_suffix ask_confirm_func) = Some (1, file_stem, file_suffix)
     \<and> r_zip_file_path (run_export_in_thread soffice cwd token1 token2 directory m t) = Some z"
proof -
  define d where "d = joinpath cwd (''temp_pdf_export_'' @ token1)"
  define zn where "zn = ''Export_PDFs_'' @ path_name (parse_path directory) @ ''_'' @ take 4 token2"
  obtain t1 where e: "export soffice m d t = (None, t1)"
    using assms(1) unfolding d_def [symmetric] by (cases "export soffice m d t") auto
  obtain t2 where z: "create_zip_archive t1 d directory zn = (Inr z, t2)"
    using assms(2) e unfolding d_def [symmetric] zn_def [symmetric]
    by (cases "create_zip_archive t1 d directory zn") auto
  have r: "export_and_archive soffice d token2 directory m t =
      \<lparr>r_model = reset m, r_fs = t2,
        r_events = [UpdateStatus (get_file_count m) Converting, UpdateStatus (get_file_count m) Zipping,
          ShowInfoExportDone (path_name (parse_path z)) directory, ClearTreeview, UpdateStatus 0 Blank, ShowInfoReset],
        r_zip_file_path = Some z, r_raised = None\<rparr>"
    unfolding export_and_archive_def zn_def [symmetric]
    by (simp add: e z handle_reset_def Let_def)
  have m: "r_model (run_export_in_thread soffice cwd token1 token2 directory m t) = reset m"
    and zp: "r_zip_file_path (run_export_in_thread soffice cwd token1 token2 directory m t) = Some z"
    unfolding run_export_in_thread_def d_def [symmetric]
    by (simp_all add: r Let_def split: sum.splits)
  have i: "reset m = init_model"
    by (simp add: reset_def init_model_def)
  show ?thesis
    unfolding m zp i by (simp add: init_model_def get_file_count_def add_file_def Let_def)
qed

theorem export_success_resets_catalog_witness:
  "fst (export soffice_ok twin_model (joinpath work_dir (''temp_pdf_export_'' @ ''0123abcd'')) sample_fs) = None
   \<and> fst (create_zip_archive
            (snd (export soffice_ok twin_model (joinpath work_dir (''temp_pdf_export_'' @ ''0123abcd'')) sample_fs))
            (joinpath work_dir (''temp_pdf_export_'' @ ''0123abcd'')) ''/out''
            (''Export_PDFs_'' @ path_name (parse_path ''/out'') @ ''_'' @ take 4 ''9f8e7d6c''))
       = Inr ''/out/Export_PDFs_out_9f8e.zip''
   \<and> get_file_count twin_model = 2
   \<and> r_model (run_export_in_thread soffice_ok work_dir ''0123abcd'' ''9f8e7d6c'' ''/out'' twin_model sample_fs)
       = init_model"
proof -
  have h1: "fst (export soffice_ok twin_model (joinpath work_dir (''temp_pdf_export_'' @ ''0123abcd'')) sample_fs) = None"
    by code_simp
  have h2: "fst (create_zip_archive
            (snd (export soffice_ok twin_model (joinpath work_dir (''temp_pdf_export_'' @ ''0123abcd'')) sample_fs))
            (joinpath work_dir (''temp_pdf_export_'' @ ''0123abcd'')) ''/out''
            (''Export_PDFs_'' @ path_name (parse_path ''/out'') @ ''_'' @ take 4 ''9f8e7d6c''))
       = Inr ''/out/Export_PDFs_out_9f8e.zip''"
    by code_simp
  have n: "get_file_count twin_model = 2" by code_simp
  from export_success_resets_catalog [OF h1 h2]
  have "r_model (run_export_in_thread soffice_ok work_dir ''0123abcd'' ''9f8e7d6c'' ''/out'' twin_model sample_fs)
       = init_model"
    by blast
  with h1 h2 n show ?thesis by blast
qed

end
